theory Spec2Isabelle
  imports Complex_Main "HOL-Library.Multiset" "HOL-Library.Log_Nat"
begin

section \<open>Configuration constants of the three script variants\<close>

text \<open>
  The repository holds three near-identical scripts: \<^verbatim>\<open>fetch-repos-stars.js\<close> (prefix
  \<open>frs\<close> below), \<^verbatim>\<open>part_000\<close> (prefix \<open>p0\<close>) and \<^verbatim>\<open>part_001\<close> (prefix \<open>p1\<close>).
  Their module constants differ, so the functions below take them as a record.
\<close>

record config =
  MAX_RESULTS_PER_SEARCH :: int
  INITIAL_STAR_RANGE :: int
  STAR_RANGE_DECREMENT :: int
  STAR_MAX :: int

definition frs_config :: config where
  "frs_config = \<lparr>MAX_RESULTS_PER_SEARCH = 1000, INITIAL_STAR_RANGE = 1000,
     STAR_RANGE_DECREMENT = 100, STAR_MAX = 6000\<rparr>"

definition p0_config :: config where
  "p0_config = \<lparr>MAX_RESULTS_PER_SEARCH = 1000, INITIAL_STAR_RANGE = 3000,
     STAR_RANGE_DECREMENT = 300, STAR_MAX = 500000\<rparr>"

definition p1_config :: config where
  "p1_config = \<lparr>MAX_RESULTS_PER_SEARCH = 1000, INITIAL_STAR_RANGE = 3000,
     STAR_RANGE_DECREMENT = 300, STAR_MAX = 364000\<rparr>"

text \<open>Default first cursor of each variant (the default of \<open>starCountStart\<close>).\<close>

definition frs_start :: int where "frs_start = 5000"
definition STAR_COUNT_START :: int where "STAR_COUNT_START = 3500"
definition STAR_MIN :: int where "STAR_MIN = 3499"

section \<open>The HTTP boundary\<close>

text \<open>
  A JSON body is modelled by the fields the scripts read; a field that is absent
  (\<open>undefined\<close> in JavaScript) is \<open>None\<close>.
\<close>

record raw_item =
  item_id :: int
  full_name_raw :: string
  html_url_raw :: string
  description_raw :: "string option"
  language_raw :: "string option"
  archived :: bool
  disabled :: bool
  visibility :: string
  forks_count :: int
  stargazers_count :: int
  watchers_count :: int
  open_issues_count :: int
  topics_raw :: "string list"
  contributors_url_raw :: string

record quota =
  limit :: int
  remaining :: int
  reset :: int

record body =
  total_count :: "int option"
  items :: "raw_item list option"
  search_quota :: "quota option"

text \<open>
  \<open>payload = None\<close>: \<open>response.json()\<close> throws. \<open>link_header\<close> is
  \<open>response.headers.get('Link')\<close>, \<open>None\<close> for \<open>null\<close>.
\<close>

record response =
  payload :: "body option"
  link_header :: "string option"

text \<open>
  The server answers the \<open>n\<close>-th request of the run for a URL; \<open>None\<close> means that
  \<open>fetch\<close> rejects. Indexing by the request number lets the answers change over time.
\<close>

type_synonym server = "nat \<Rightarrow> string \<Rightarrow> response option"

text \<open>
  How a call ends other than by returning a value: \<open>Logged\<close> is the \<open>catch\<close> block that
  logs, sets \<open>process.exitCode = 1\<close> and lets the function return \<open>undefined\<close>;
  \<open>Thrown\<close> is an exception that leaves the function.
\<close>

datatype failure = Thrown | Logged

section \<open>JavaScript comparisons with \<open>undefined\<close>\<close>

text \<open>\<open>undefined > m\<close> and \<open>undefined <= m\<close> are both false.\<close>

definition js_gt :: "int option \<Rightarrow> int \<Rightarrow> bool" where
  "js_gt t m = (case t of None \<Rightarrow> False | Some k \<Rightarrow> k > m)"

definition js_le :: "int option \<Rightarrow> int \<Rightarrow> bool" where
  "js_le t m = (case t of None \<Rightarrow> False | Some k \<Rightarrow> k \<le> m)"

section \<open>Building the search query\<close>

text \<open>Decimal rendering of an integer, as a template string does it.\<close>

fun digits :: "nat \<Rightarrow> string" where
  "digits n = (if n < 10 then [''0123456789'' ! n]
     else digits (n div 10) @ [''0123456789'' ! (n mod 10)])"

declare digits.simps [simp del]

definition number_toString :: "int \<Rightarrow> string" where
  "number_toString i = (if i < 0 then CHR ''-'' # digits (nat (- i)) else digits (nat i))"

text \<open>
  \<open>`${searchUrl}?${queryParams.toString()}`\<close> for
  \<open>q = `stars:${low}..${high}`\<close> and \<open>per_page = PER_PAGE\<close> (100 in each variant);
  \<open>URLSearchParams\<close> escapes the colon.
\<close>

definition search_query :: "int \<Rightarrow> int \<Rightarrow> string" where
  "search_query low high =
     ''https://api.github.com/search/repositories?q=stars%3A'' @ number_toString low @ ''..''
       @ number_toString high @ ''&per_page=100''"

text \<open>One probe: \<open>fetch\<close>, then \<open>response.json()\<close>, then reading \<open>data.total_count\<close>.\<close>

definition probe :: "server \<Rightarrow> nat \<Rightarrow> int \<Rightarrow> int \<Rightarrow> failure + int option" where
  "probe srv n low high =
     (case srv n (search_query low high) of
        None \<Rightarrow> Inl Thrown
      | Some resp \<Rightarrow> (case payload resp of None \<Rightarrow> Inl Thrown | Some b \<Rightarrow> Inr (total_count b)))"

section \<open>The planner's shrink loop\<close>

text \<open>The high bound of the candidate range for cursor \<open>c\<close> and step \<open>r\<close>.\<close>

definition frs_high :: "config \<Rightarrow> int \<Rightarrow> int \<Rightarrow> int" where
  "frs_high cfg c r = min (STAR_MAX cfg) (c + r - 1)"

definition clamped_high :: "config \<Rightarrow> int \<Rightarrow> int \<Rightarrow> int" where
  "clamped_high cfg c r = max (min (STAR_MAX cfg) (c + r - 1)) c"

text \<open>
  The result of a shrink loop: the step \<open>starCountRange\<close>, the high bound written into
  \<open>starCountParsedRange\<close>, the last \<open>data.total_count\<close>, and the number of requests made
  so far.
\<close>

type_synonym planned = "int \<times> int \<times> int option \<times> nat"

text \<open>
  \<^verbatim>\<open>fetch-repos-stars.js\<close>, lines 119-136: a \<open>while\<close> loop entered with \<open>data = {}\<close>.
\<close>

partial_function (option) frs_shrink ::
  "config \<Rightarrow> server \<Rightarrow> int \<Rightarrow> int \<Rightarrow> int \<Rightarrow> int option \<Rightarrow> nat \<Rightarrow> (failure + planned) option"
where
  "frs_shrink cfg srv c r high data n =
     (if js_gt data (MAX_RESULTS_PER_SEARCH cfg) \<or> data = None then
        (case probe srv n c high of
           Inl e \<Rightarrow> Some (Inl e)
         | Inr t \<Rightarrow>
             if js_le t (MAX_RESULTS_PER_SEARCH cfg) then Some (Inr (r, high, t, Suc n))
             else frs_shrink cfg srv c (r - STAR_RANGE_DECREMENT cfg)
                    (frs_high cfg c (r - STAR_RANGE_DECREMENT cfg)) t (Suc n))
      else Some (Inr (r, high, data, n)))"

text \<open>\<^verbatim>\<open>part_000\<close>, lines 134-157: the same loop with the clamp and the guard.\<close>

partial_function (option) p0_shrink ::
  "config \<Rightarrow> server \<Rightarrow> int \<Rightarrow> int \<Rightarrow> int \<Rightarrow> int option \<Rightarrow> nat \<Rightarrow> (failure + planned) option"
where
  "p0_shrink cfg srv c r high data n =
     (if js_gt data (MAX_RESULTS_PER_SEARCH cfg) \<or> data = None then
        (case probe srv n c high of
           Inl e \<Rightarrow> Some (Inl e)
         | Inr t \<Rightarrow>
             if t = Some 0 \<or> js_le t (MAX_RESULTS_PER_SEARCH cfg) then Some (Inr (r, high, t, Suc n))
             else if c = clamped_high cfg c (r - STAR_RANGE_DECREMENT cfg)
             then Some (Inr (r - STAR_RANGE_DECREMENT cfg,
                    clamped_high cfg c (r - STAR_RANGE_DECREMENT cfg), t, Suc n))
             else p0_shrink cfg srv c (r - STAR_RANGE_DECREMENT cfg)
                    (clamped_high cfg c (r - STAR_RANGE_DECREMENT cfg)) t (Suc n))
      else Some (Inr (r, high, data, n)))"

text \<open>\<^verbatim>\<open>part_001\<close>, lines 143-166: a \<open>do ... while (data.total_count > MAX)\<close> loop.\<close>

partial_function (option) p1_shrink ::
  "config \<Rightarrow> server \<Rightarrow> int \<Rightarrow> int \<Rightarrow> int \<Rightarrow> nat \<Rightarrow> (failure + planned) option"
where
  "p1_shrink cfg srv c r high n =
     (case probe srv n c high of
        Inl e \<Rightarrow> Some (Inl e)
      | Inr t \<Rightarrow>
          if t = Some 0 \<or> js_le t (MAX_RESULTS_PER_SEARCH cfg) then Some (Inr (r, high, t, Suc n))
          else if c = clamped_high cfg c (r - STAR_RANGE_DECREMENT cfg)
          then Some (Inr (r - STAR_RANGE_DECREMENT cfg,
                 clamped_high cfg c (r - STAR_RANGE_DECREMENT cfg), t, Suc n))
          else if js_gt t (MAX_RESULTS_PER_SEARCH cfg)
          then p1_shrink cfg srv c (r - STAR_RANGE_DECREMENT cfg)
                 (clamped_high cfg c (r - STAR_RANGE_DECREMENT cfg)) (Suc n)
          else Some (Inr (r - STAR_RANGE_DECREMENT cfg,
                 clamped_high cfg c (r - STAR_RANGE_DECREMENT cfg), t, Suc n)))"

section \<open>Filtering and projecting a page of items\<close>

record repo =
  github_id :: int
  full_name :: string
  html_url :: string
  description :: "string option"
  language :: "string option"
  forks :: int
  stars :: int
  watchers :: int
  open_issues :: int
  topics :: "string list"
  contributors_url :: string

text \<open>
  \<open>filterResponseData\<close> (the same text in the three variants). Reading
  \<open>responseJson.items.filter\<close> throws a \<open>TypeError\<close> when the body has no \<open>items\<close>.
\<close>

definition filterResponseData :: "body \<Rightarrow> failure + repo list" where
  "filterResponseData responseJson =
     (case items responseJson of
        None \<Rightarrow> Inl Thrown
      | Some its \<Rightarrow>
          Inr (map (\<lambda>i. \<lparr>github_id = item_id i, full_name = full_name_raw i,
                          html_url = html_url_raw i, description = description_raw i,
                          language = language_raw i, forks = forks_count i,
                          stars = stargazers_count i, watchers = watchers_count i,
                          open_issues = open_issues_count i, topics = topics_raw i,
                          contributors_url = contributors_url_raw i\<rparr>)
                 (filter (\<lambda>i. \<not> archived i \<and> \<not> disabled i \<and> visibility i = ''public'') its)))"

section \<open>Strings: \<open>split\<close>, \<open>trim\<close>, \<open>slice(1, -1)\<close>\<close>

text \<open>
  A header value is a byte string, so a \<open>char\<close> is one code unit. \<open>split_on d s\<close> is
  \<open>s.split(d)\<close> for a one-character separator: it always returns at least one piece.
\<close>

fun split_on :: "char \<Rightarrow> string \<Rightarrow> string list" where
  "split_on d [] = [[]]"
| "split_on d (x # xs) =
     (if x = d then [] # split_on d xs
      else (case split_on d xs of [] \<Rightarrow> [[x]] | p # ps \<Rightarrow> (x # p) # ps))"

text \<open>The white space and line terminators of ECMAScript that fit in one byte.\<close>

definition is_space :: "char \<Rightarrow> bool" where
  "is_space ch = (ch \<in> {CHR 0x09, CHR 0x0A, CHR 0x0B, CHR 0x0C, CHR 0x0D, CHR 0x20, CHR 0xA0})"

definition trim :: "string \<Rightarrow> string" where
  "trim s = rev (dropWhile is_space (rev (dropWhile is_space s)))"

definition slice_1_m1 :: "string \<Rightarrow> string" where
  "slice_1_m1 s = butlast (tl s)"

section \<open>Following the \<open>Link\<close> header\<close>

text \<open>
  \<open>new URL(text).href\<close> is the platform's URL parser; it is a parameter \<open>URL\<close> of the
  model: \<open>None\<close> when the constructor throws, otherwise the normalised \<open>href\<close>.
\<close>

type_synonym url_parser = "string \<Rightarrow> string option"

definition rel_next :: string where
  \<open>rel_next = ''rel="next"''\<close>

text \<open>
  The \<open>for (const link of links)\<close> loop: \<open>Inr (Some href)\<close> when an entry with
  \<open>rel="next"\<close> is met (the \<open>break\<close>), \<open>Inr None\<close> when the entries run out, and
  \<open>Inl Thrown\<close> when \<open>new URL\<close> throws or when \<open>split(';')[1]\<close> is \<open>undefined\<close>.
\<close>

fun scan_links :: "url_parser \<Rightarrow> string list \<Rightarrow> failure + string option" where
  "scan_links URL [] = Inr None"
| "scan_links URL (link # links) =
     (case split_on (CHR '';'') (trim link) of
        [] \<Rightarrow> Inl Thrown
      | first # rest \<Rightarrow>
          (case URL (slice_1_m1 first) of
             None \<Rightarrow> Inl Thrown
           | Some href \<Rightarrow>
               (case rest of
                  [] \<Rightarrow> Inl Thrown
                | second # _ \<Rightarrow>
                    if trim second = rel_next then Inr (Some href) else scan_links URL links)))"

text \<open>\<open>nextPageUrl\<close> after a page: \<open>if (linkHeader)\<close> is false for \<open>null\<close> and for \<open>""\<close>.\<close>

definition next_page :: "url_parser \<Rightarrow> string option \<Rightarrow> failure + string option" where
  "next_page URL linkHeader =
     (case linkHeader of
        None \<Rightarrow> Inr None
      | Some h \<Rightarrow> if h = [] then Inr None else scan_links URL (split_on (CHR '','') h))"

text \<open>
  The body of the \<open>try\<close> block of \<open>fetchRepositoriesWithPagination\<close>. The loop test
  \<open>while (nextPageUrl)\<close> is false for \<open>null\<close> and for the empty string. Besides the
  outcome, the model returns the URLs it requested, in order, and the request counter.
\<close>

partial_function (option) paginate ::
  "url_parser \<Rightarrow> server \<Rightarrow> string option \<Rightarrow> repo list \<Rightarrow> string list \<Rightarrow> nat
     \<Rightarrow> ((failure + repo list) \<times> string list \<times> nat) option"
where
  "paginate URL srv nextPageUrl repoData asked n =
     (case nextPageUrl of
        None \<Rightarrow> Some (Inr repoData, asked, n)
      | Some u \<Rightarrow>
          if u = [] then Some (Inr repoData, asked, n)
          else
            (case srv n u of
               None \<Rightarrow> Some (Inl Thrown, asked @ [u], Suc n)
             | Some resp \<Rightarrow>
                 (case payload resp of
                    None \<Rightarrow> Some (Inl Thrown, asked @ [u], Suc n)
                  | Some data \<Rightarrow>
                      (case filterResponseData data of
                         Inl e \<Rightarrow> Some (Inl e, asked @ [u], Suc n)
                       | Inr page \<Rightarrow>
                           (case next_page URL (link_header resp) of
                              Inl e \<Rightarrow> Some (Inl e, asked @ [u], Suc n)
                            | Inr nxt \<Rightarrow>
                                paginate URL srv nxt (repoData @ page) (asked @ [u]) (Suc n))))))"

text \<open>
  The \<open>catch\<close> blocks. In \<^verbatim>\<open>part_000\<close> and \<^verbatim>\<open>part_001\<close> the handler logs, sets the exit code
  and the function returns \<open>undefined\<close>. In \<^verbatim>\<open>fetch-repos-stars.js\<close> the handler reads
  \<open>err.message\<close> although the binding is \<open>error\<close>, so the handler itself throws.
\<close>

definition p1_fetchRepositoriesWithPagination ::
  "url_parser \<Rightarrow> server \<Rightarrow> string \<Rightarrow> nat \<Rightarrow> ((failure + repo list) \<times> string list \<times> nat) option"
where
  "p1_fetchRepositoriesWithPagination URL srv url n =
     (case paginate URL srv (Some url) [] [] n of
        None \<Rightarrow> None
      | Some (Inl e, asked, n') \<Rightarrow> Some (Inl Logged, asked, n')
      | Some (Inr rs, asked, n') \<Rightarrow> Some (Inr rs, asked, n'))"

definition frs_fetchRepositoriesWithPagination ::
  "url_parser \<Rightarrow> server \<Rightarrow> string \<Rightarrow> nat \<Rightarrow> ((failure + repo list) \<times> string list \<times> nat) option"
where
  "frs_fetchRepositoriesWithPagination URL srv url n =
     (case paginate URL srv (Some url) [] [] n of
        None \<Rightarrow> None
      | Some (Inl e, asked, n') \<Rightarrow> Some (Inl Thrown, asked, n')
      | Some (Inr rs, asked, n') \<Rightarrow> Some (Inr rs, asked, n'))"

section \<open>The rate-limit governor\<close>

definition rate_limit_url :: string where
  "rate_limit_url = ''https://api.github.com/rate_limit''"

text \<open>
  \<open>fetchRateLimit\<close> returns \<open>rateLimitJson.resources.search\<close>; every caller destructures
  the result at once, so a missing object ends in a \<open>TypeError\<close> either way.
\<close>

definition fetchRateLimit :: "server \<Rightarrow> nat \<Rightarrow> failure + quota" where
  "fetchRateLimit srv n =
     (case srv n rate_limit_url of
        None \<Rightarrow> Inl Thrown
      | Some resp \<Rightarrow>
          (case payload resp of
             None \<Rightarrow> Inl Thrown
           | Some b \<Rightarrow> (case search_quota b of None \<Rightarrow> Inl Thrown | Some q \<Rightarrow> Inr q)))"

subsection \<open>Double-precision arithmetic\<close>

text \<open>
  JavaScript numbers are IEEE 754 binary64 values. A finite one is modelled by the
  rational it denotes, and an arithmetic operation by the exact operation followed by
  rounding to the nearest value with a 53-bit significand, ties to even. Overflow and
  subnormal values are left out: the quantities below are differences of time values and
  their quotients by 1000, far from either end of the exponent range.
\<close>

datatype number = NaN | Finite rat

text \<open>The nearest integer, the even one of two that are equally near.\<close>

definition ties_even :: "rat \<Rightarrow> int" where
  "ties_even q =
     (if q - of_int \<lfloor>q\<rfloor> < 1 / 2 then \<lfloor>q\<rfloor>
      else if 1 / 2 < q - of_int \<lfloor>q\<rfloor> then \<lfloor>q\<rfloor> + 1
      else if even \<lfloor>q\<rfloor> then \<lfloor>q\<rfloor> else \<lfloor>q\<rfloor> + 1)"

text \<open>The binary exponent of a positive rational: \<open>2 powi expo y \<le> y < 2 powi (expo y + 1)\<close>.\<close>

definition expo :: "rat \<Rightarrow> int" where
  "expo y = (if 1 \<le> y then bitlen \<lfloor>y\<rfloor> - 1 else - bitlen (\<lceil>1 / y\<rceil> - 1))"

definition round_double :: "rat \<Rightarrow> rat" where
  "round_double y =
     (if y = 0 then 0
      else sgn y * of_int (ties_even (\<bar>y\<bar> * 2 powi (52 - expo \<bar>y\<bar>))) * 2 powi (expo \<bar>y\<bar> - 52))"

definition js_divide :: "number \<Rightarrow> rat \<Rightarrow> number" where
  "js_divide v k = (case v of NaN \<Rightarrow> NaN | Finite a \<Rightarrow> Finite (round_double (a / k)))"

definition js_times :: "number \<Rightarrow> rat \<Rightarrow> number" where
  "js_times v k = (case v of NaN \<Rightarrow> NaN | Finite a \<Rightarrow> Finite (round_double (a * k)))"

text \<open>
  \<open>new Date(reset * 1000) - Date.now()\<close> for an integer \<open>reset\<close> and a reading \<open>now\<close> of the
  clock, which is an integer time value. A time value beyond 8.64e15 in magnitude makes
  the date invalid, and the difference is \<open>NaN\<close>; within that range the product is exact.
\<close>

definition date_minus_now :: "int \<Rightarrow> int \<Rightarrow> number" where
  "date_minus_now reset_s now_ms =
     (if 8640000000000000 < \<bar>reset_s * 1000\<bar> then NaN
      else Finite (round_double (of_int (reset_s * 1000 - now_ms))))"

subsection \<open>Waiting for the reset\<close>

text \<open>
  \<open>waitForRateLimitReset\<close> of \<^verbatim>\<open>part_001\<close>. \<open>now k\<close> is the reading of \<open>Date.now()\<close>, in
  milliseconds, once \<open>k\<close> requests have been answered. The result is the argument handed
  to \<open>sleep\<close>, that is \<open>waitTime * 1000\<close> for
  \<open>waitTime = (new Date(reset * 1000) - Date.now()) / 1000\<close> (\<open>None\<close> when \<open>sleep\<close> is not
  called), and the request counter.
\<close>

definition waitForRateLimitReset ::
  "server \<Rightarrow> (nat \<Rightarrow> int) \<Rightarrow> int \<Rightarrow> nat \<Rightarrow> failure + (number option \<times> nat)"
where
  "waitForRateLimitReset srv now option n =
     (case fetchRateLimit srv n of
        Inl e \<Rightarrow> Inl e
      | Inr q \<Rightarrow>
          if (remaining q < 12 \<and> option = 1) \<or> (remaining q = 0 \<and> option = 2)
          then Inr (Some (js_times (js_divide (date_minus_now (reset q) (now (Suc n))) 1000) 1000),
                    Suc n)
          else Inr (None, Suc n))"

section \<open>The orchestrator\<close>

text \<open>
  The variables of \<open>fetchAllRepos\<close> that live across iterations, the request counter, and
  the ranges handed to the collector so far (the ranges of the log line \<open>4:\<close>).
\<close>

record run =
  starCutoff :: int
  repoData :: "repo list"
  requests :: nat
  walked :: "(int \<times> int) list"

text \<open>
  One pass through the body of \<open>while (true)\<close> in \<^verbatim>\<open>part_001\<close>, up to and including
  \<open>starCutoff += starCountRange\<close>. When the collector has returned \<open>undefined\<close>,
  \<open>repoData.push(...fetchedRepos)\<close> throws a \<open>TypeError\<close>.
\<close>

definition p1_iteration ::
  "config \<Rightarrow> url_parser \<Rightarrow> server \<Rightarrow> (nat \<Rightarrow> int) \<Rightarrow> run \<Rightarrow> (failure + run) option"
where
  "p1_iteration cfg URL srv now s =
     (case waitForRateLimitReset srv now 1 (requests s) of
        Inl e \<Rightarrow> Some (Inl e)
      | Inr (nap1, n1) \<Rightarrow>
          (case p1_shrink cfg srv (starCutoff s) (INITIAL_STAR_RANGE cfg)
                  (clamped_high cfg (starCutoff s) (INITIAL_STAR_RANGE cfg)) n1 of
             None \<Rightarrow> None
           | Some (Inl e) \<Rightarrow> Some (Inl e)
           | Some (Inr (r, high, t, n2)) \<Rightarrow>
               (case waitForRateLimitReset srv now 2 n2 of
                  Inl e \<Rightarrow> Some (Inl e)
                | Inr (nap2, n3) \<Rightarrow>
                    (case p1_fetchRepositoriesWithPagination URL srv
                            (search_query (starCutoff s) high) n3 of
                       None \<Rightarrow> None
                     | Some (Inl e, asked, n4) \<Rightarrow> Some (Inl Thrown)
                     | Some (Inr fetchedRepos, asked, n4) \<Rightarrow>
                         Some (Inr (s\<lparr>starCutoff := starCutoff s + r,
                                      repoData := repoData s @ fetchedRepos,
                                      requests := n4,
                                      walked := walked s @ [(starCutoff s, high)]\<rparr>))))))"

partial_function (option) p1_loop ::
  "config \<Rightarrow> url_parser \<Rightarrow> server \<Rightarrow> (nat \<Rightarrow> int) \<Rightarrow> run \<Rightarrow> (failure + run) option"
where
  "p1_loop cfg URL srv now s =
     (case p1_iteration cfg URL srv now s of
        None \<Rightarrow> None
      | Some (Inl e) \<Rightarrow> Some (Inl e)
      | Some (Inr s') \<Rightarrow>
          if starCutoff s' > STAR_MAX cfg then Some (Inr s') else p1_loop cfg URL srv now s')"

text \<open>
  \<open>repoData.sort((a, b) => b.stars - a.stars)\<close>: \<open>Array.prototype.sort\<close> is stable, and
  so is \<open>sort_key\<close>; the comparator orders by falling \<open>stars\<close>.
\<close>

definition sort_by_stars :: "repo list \<Rightarrow> repo list" where
  "sort_by_stars rs = sort_key (\<lambda>r. - stars r) rs"

text \<open>
  \<open>fetchAllRepos\<close> of \<^verbatim>\<open>part_001\<close>: any exception inside the \<open>try\<close> is logged and the
  function returns \<open>undefined\<close>. On success the array returned is \<open>repoData\<close> of the result.
\<close>

definition p1_fetchAllRepos ::
  "config \<Rightarrow> url_parser \<Rightarrow> server \<Rightarrow> (nat \<Rightarrow> int) \<Rightarrow> int \<Rightarrow> (failure + run) option"
where
  "p1_fetchAllRepos cfg URL srv now starCountStart =
     (case p1_loop cfg URL srv now
             \<lparr>starCutoff = starCountStart, repoData = [], requests = 0, walked = []\<rparr> of
        None \<Rightarrow> None
      | Some (Inl e) \<Rightarrow> Some (Inl Logged)
      | Some (Inr s) \<Rightarrow> Some (Inr (s\<lparr>repoData := sort_by_stars (repoData s)\<rparr>)))"

text \<open>
  The same for \<^verbatim>\<open>fetch-repos-stars.js\<close>: the quota is read once and only logged, there is
  no wait, and the \<open>catch\<close> handler throws (it reads \<open>err\<close>, which is not bound).
\<close>

definition frs_iteration ::
  "config \<Rightarrow> url_parser \<Rightarrow> server \<Rightarrow> run \<Rightarrow> (failure + run) option"
where
  "frs_iteration cfg URL srv s =
     (case frs_shrink cfg srv (starCutoff s) (INITIAL_STAR_RANGE cfg)
             (frs_high cfg (starCutoff s) (INITIAL_STAR_RANGE cfg)) None (requests s) of
        None \<Rightarrow> None
      | Some (Inl e) \<Rightarrow> Some (Inl e)
      | Some (Inr (r, high, t, n2)) \<Rightarrow>
          (case frs_fetchRepositoriesWithPagination URL srv
                  (search_query (starCutoff s) high) n2 of
             None \<Rightarrow> None
           | Some (Inl e, asked, n4) \<Rightarrow> Some (Inl e)
           | Some (Inr fetchedRepos, asked, n4) \<Rightarrow>
               Some (Inr (s\<lparr>starCutoff := starCutoff s + r,
                            repoData := repoData s @ fetchedRepos,
                            requests := n4,
                            walked := walked s @ [(starCutoff s, high)]\<rparr>))))"

partial_function (option) frs_loop ::
  "config \<Rightarrow> url_parser \<Rightarrow> server \<Rightarrow> run \<Rightarrow> (failure + run) option"
where
  "frs_loop cfg URL srv s =
     (case frs_iteration cfg URL srv s of
        None \<Rightarrow> None
      | Some (Inl e) \<Rightarrow> Some (Inl e)
      | Some (Inr s') \<Rightarrow>
          if starCutoff s' > STAR_MAX cfg then Some (Inr s') else frs_loop cfg URL srv s')"

definition frs_fetchAllRepos ::
  "config \<Rightarrow> url_parser \<Rightarrow> server \<Rightarrow> int \<Rightarrow> (failure + run) option"
where
  "frs_fetchAllRepos cfg URL srv starCountStart =
     (case fetchRateLimit srv 0 of
        Inl e \<Rightarrow> Some (Inl Thrown)
      | Inr q \<Rightarrow>
          (case frs_loop cfg URL srv
                  \<lparr>starCutoff = starCountStart, repoData = [], requests = 1, walked = []\<rparr> of
             None \<Rightarrow> None
           | Some (Inl e) \<Rightarrow> Some (Inl Thrown)
           | Some (Inr s) \<Rightarrow> Some (Inr s)))"

text \<open>
  The state after \<open>j\<close> complete passes that did not end the loop (\<open>None\<close> when an earlier
  pass failed, did not return, or ended the loop).
\<close>

fun p1_after ::
  "config \<Rightarrow> url_parser \<Rightarrow> server \<Rightarrow> (nat \<Rightarrow> int) \<Rightarrow> run \<Rightarrow> nat \<Rightarrow> run option"
where
  "p1_after cfg URL srv now s 0 = Some s"
| "p1_after cfg URL srv now s (Suc j) =
     (case p1_iteration cfg URL srv now s of
        Some (Inr s') \<Rightarrow>
          if starCutoff s' > STAR_MAX cfg then None else p1_after cfg URL srv now s' j
      | _ \<Rightarrow> None)"

section \<open>The data model in the words of the specification\<close>

text \<open>
  An item is kept when it is non-archived, non-disabled and publicly visible; a kept item
  is projected to the fixed field set of the normalised record.
\<close>

definition publicly_listed :: "raw_item \<Rightarrow> bool" where
  "publicly_listed i = (\<not> archived i \<and> \<not> disabled i \<and> visibility i = ''public'')"

definition normalized_record :: "raw_item \<Rightarrow> repo" where
  "normalized_record i =
     \<lparr>github_id = item_id i, full_name = full_name_raw i, html_url = html_url_raw i,
      description = description_raw i, language = language_raw i, forks = forks_count i,
      stars = stargazers_count i, watchers = watchers_count i,
      open_issues = open_issues_count i, topics = topics_raw i,
      contributors_url = contributors_url_raw i\<rparr>"

fun normalize_items :: "raw_item list \<Rightarrow> repo list" where
  "normalize_items [] = []"
| "normalize_items (i # rest) =
     (if publicly_listed i then normalized_record i # normalize_items rest else normalize_items rest)"

section \<open>Simulated chains of pages\<close>

text \<open>
  A simulated page: the address it is served at, its items, and the entries of its
  \<open>Link\<close> header as pairs of URL text and relation name.
\<close>

record page_sim =
  addr :: string
  listed :: "raw_item list"
  entries :: "(string \<times> string) list"

definition render_entry :: "string \<times> string \<Rightarrow> string" where
  \<open>render_entry e = ''<'' @ fst e @ ''>; rel="'' @ snd e @ ''"''\<close>

fun render_entries :: "(string \<times> string) list \<Rightarrow> string" where
  "render_entries [] = []"
| "render_entries [e] = render_entry e"
| "render_entries (e # es) = render_entry e @ '', '' @ render_entries es"

definition header_of :: "page_sim \<Rightarrow> string option" where
  "header_of p = (if entries p = [] then None else Some (render_entries (entries p)))"

definition answers :: "response \<Rightarrow> page_sim \<Rightarrow> bool" where
  "answers resp p =
     ((case payload resp of None \<Rightarrow> False | Some b \<Rightarrow> items b = Some (listed p))
      \<and> link_header resp = header_of p)"

text \<open>The server answers requests \<open>n\<close>, \<open>n + 1\<close>, ... for the pages' addresses with the pages.\<close>

fun served :: "server \<Rightarrow> nat \<Rightarrow> page_sim list \<Rightarrow> bool" where
  "served srv n [] = True"
| "served srv n (p # ps) =
     ((case srv n (addr p) of None \<Rightarrow> False | Some resp \<Rightarrow> answers resp p)
      \<and> served srv (Suc n) ps)"

definition plain :: "string \<Rightarrow> bool" where
  "plain s = (CHR '','' \<notin> set s \<and> CHR '';'' \<notin> set s)"

definition well_formed :: "url_parser \<Rightarrow> page_sim \<Rightarrow> bool" where
  "well_formed URL p =
     (addr p \<noteq> [] \<and>
      list_all (\<lambda>e. plain (fst e) \<and> plain (snd e) \<and> URL (fst e) \<noteq> None) (entries p))"

text \<open>Where the first entry with relation \<open>next\<close> leads, if there is one.\<close>

definition follows :: "url_parser \<Rightarrow> page_sim \<Rightarrow> string option" where
  "follows URL p =
     (case find (\<lambda>e. snd e = ''next'') (entries p) of None \<Rightarrow> None | Some e \<Rightarrow> URL (fst e))"

text \<open>Every page but the last leads to its successor; the last has no \<open>next\<close> entry.\<close>

fun chain :: "url_parser \<Rightarrow> page_sim list \<Rightarrow> bool" where
  "chain URL [] = True"
| "chain URL [p] = (find (\<lambda>e. snd e = ''next'') (entries p) = None)"
| "chain URL (p # q # ps) = (follows URL p = Some (addr q) \<and> chain URL (q # ps))"

text \<open>
  A request that fails: \<open>fetch\<close> rejects, the body does not parse, the body has no
  \<open>items\<close>, or the \<open>Link\<close> header cannot be read.
\<close>

definition page_fails :: "url_parser \<Rightarrow> server \<Rightarrow> nat \<Rightarrow> string \<Rightarrow> bool" where
  "page_fails URL srv n u =
     (case srv n u of
        None \<Rightarrow> True
      | Some resp \<Rightarrow>
          (case payload resp of
             None \<Rightarrow> True
           | Some b \<Rightarrow>
               (case items b of
                  None \<Rightarrow> True
                | Some its \<Rightarrow>
                    (case next_page URL (link_header resp) of Inl e \<Rightarrow> True | Inr nxt \<Rightarrow> False))))"

text \<open>The URL of the request that follows \<open>k\<close> pages answered without failure.\<close>

fun reached :: "url_parser \<Rightarrow> server \<Rightarrow> nat \<Rightarrow> string \<Rightarrow> nat \<Rightarrow> string option" where
  "reached URL srv n u 0 = Some u"
| "reached URL srv n u (Suc k) =
     (if u = [] then None
      else
        (case srv n u of
           None \<Rightarrow> None
         | Some resp \<Rightarrow>
             (case payload resp of
                None \<Rightarrow> None
              | Some b \<Rightarrow>
                  (case items b of
                     None \<Rightarrow> None
                   | Some its \<Rightarrow>
                       (case next_page URL (link_header resp) of
                          Inl e \<Rightarrow> None
                        | Inr None \<Rightarrow> None
                        | Inr (Some v) \<Rightarrow> reached URL srv (Suc n) v k)))))"

section \<open>Ranges that tile an interval\<close>

text \<open>
  \<open>tiles a xs b\<close>: the inclusive ranges \<open>xs\<close>, in order, start at \<open>a\<close>, are non-empty, each
  begins right after its predecessor ends, and the last ends at \<open>b - 1\<close>.
\<close>

fun tiles :: "int \<Rightarrow> (int \<times> int) list \<Rightarrow> int \<Rightarrow> bool" where
  "tiles a [] b = (a = b)"
| "tiles a (x # xs) b = (fst x = a \<and> fst x \<le> snd x \<and> tiles (snd x + 1) xs b)"

section \<open>Simulated servers\<close>

definition sample_item :: "int \<Rightarrow> int \<Rightarrow> raw_item" where
  "sample_item k s =
     \<lparr>item_id = k, full_name_raw = ''octo/demo'', html_url_raw = ''https://github.com/octo/demo'',
      description_raw = None, language_raw = Some ''C'', archived = False, disabled = False,
      visibility = ''public'', forks_count = 7, stargazers_count = s, watchers_count = s,
      open_issues_count = 0, topics_raw = [],
      contributors_url_raw = ''https://api.github.com/repos/octo/demo/contributors''\<rparr>"

text \<open>A body that is valid JSON but an error message: no count, no items, no quota.\<close>

definition error_body :: body where
  "error_body = \<lparr>total_count = None, items = None, search_quota = None\<rparr>"

definition search_body :: "int \<Rightarrow> raw_item list \<Rightarrow> body" where
  "search_body t its = \<lparr>total_count = Some t, items = Some its, search_quota = None\<rparr>"

definition quota_body :: "int \<Rightarrow> int \<Rightarrow> body" where
  "quota_body rem rst =
     \<lparr>total_count = None, items = None,
      search_quota = Some \<lparr>limit = 30, remaining = rem, reset = rst\<rparr>\<rparr>"

definition reply :: "body \<Rightarrow> string option \<Rightarrow> response option" where
  "reply b h = Some \<lparr>payload = Some b, link_header = h\<rparr>"

text \<open>The clock of the examples stands still at a fixed instant (milliseconds).\<close>

definition still_clock :: "nat \<Rightarrow> int" where
  "still_clock k = 1700000000000"

text \<open>Every search matches exactly 1000 repositories.\<close>

definition capped_server :: server where
  "capped_server n u = reply (search_body 1000 []) None"

text \<open>
  The search quota is used up: the quota endpoint says so, and every search is answered
  with an error message.
\<close>

definition exhausted_server :: server where
  "exhausted_server n u =
     (if u = rate_limit_url then reply (quota_body 0 1700000060) None
      else reply error_body None)"

text \<open>The first request is answered with an error message, the later ones with 800 matches.\<close>

definition hiccup_server :: server where
  "hiccup_server n u = (if n = 0 then reply error_body None else reply (search_body 800 []) None)"

text \<open>Ten requests are answered with an error message (secondary rate limit), then none match.\<close>

definition throttled_server :: server where
  "throttled_server n u = (if n < 10 then reply error_body None else reply (search_body 0 []) None)"

text \<open>Quota is plentiful, and every range of stars holds 1500 repositories.\<close>

definition crowded_server :: server where
  "crowded_server n u =
     (if u = rate_limit_url then reply (quota_body 30 1700000060) None
      else reply (search_body 1500 [sample_item 1 3499]) None)"

text \<open>The quota is nearly used up and the window resets five seconds from now.\<close>

definition scarce_server :: server where
  "scarce_server n u = reply (quota_body 5 1700000005) None"

text \<open>
  The quota is nearly used up and the window resets 1001 milliseconds after the reading of
  the clock.
\<close>

definition early_clock :: "nat \<Rightarrow> int" where
  "early_clock k = 1699999999999"

definition tight_server :: server where
  "tight_server n u = reply (quota_body 5 1700000001) None"

text \<open>A result of two pages; the link to the second page contains a comma.\<close>

definition comma_pages :: "page_sim list" where
  "comma_pages =
     [\<lparr>addr = ''https://example.test/items?fields=id'', listed = [sample_item 1 10],
       entries = [(''https://example.test/items?fields=id,name&page=2'', ''next'')]\<rparr>,
      \<lparr>addr = ''https://example.test/items?fields=id,name&page=2'', listed = [sample_item 2 9],
       entries = []\<rparr>]"

definition comma_server :: server where
  \<open>comma_server n u =
     (if u = ''https://example.test/items?fields=id''
      then reply (search_body 2 [sample_item 1 10])
             (Some ''<https://example.test/items?fields=id,name&page=2>; rel="next"'')
      else if u = ''https://example.test/items?fields=id,name&page=2''
      then reply (search_body 2 [sample_item 2 9]) None
      else None)\<close>

text \<open>
  A result of two pages near the ceiling of \<^verbatim>\<open>part_001\<close>; the second item of the first page
  is archived.
\<close>

definition tour_start :: string where
  "tour_start = ''https://api.github.com/search/repositories?q=stars%3A363000..364000&per_page=100''"

definition tour_second :: string where
  "tour_second = ''https://api.github.com/search/repositories?page=2&q=stars%3A363000..364000''"

definition tour_pages :: "page_sim list" where
  "tour_pages =
     [\<lparr>addr = tour_start,
       listed = [sample_item 1 363500, (sample_item 2 363700)\<lparr>archived := True\<rparr>,
                 sample_item 3 364000],
       entries = [(tour_second, ''next''), (tour_second, ''last'')]\<rparr>,
      \<lparr>addr = tour_second, listed = [sample_item 4 363900],
       entries = [(tour_start, ''prev''), (tour_start, ''first'')]\<rparr>]"

definition tour_server :: server where
  \<open>tour_server n u =
     (if u = rate_limit_url then reply (quota_body 30 1700000060) None
      else if u = tour_second
      then reply (search_body 3 [sample_item 4 363900])
             (Some ''<https://api.github.com/search/repositories?q=stars%3A363000..364000&per_page=100>; rel="prev", <https://api.github.com/search/repositories?q=stars%3A363000..364000&per_page=100>; rel="first"'')
      else reply (search_body 3 [sample_item 1 363500, (sample_item 2 363700)\<lparr>archived := True\<rparr>,
                                 sample_item 3 364000])
             (Some ''<https://api.github.com/search/repositories?page=2&q=stars%3A363000..364000>; rel="next", <https://api.github.com/search/repositories?page=2&q=stars%3A363000..364000>; rel="last"''))\<close>

text \<open>The same, but the request for the second page is rejected.\<close>

definition broken_server :: server where
  "broken_server n u = (if u = tour_second then None else tour_server n u)"

section \<open>Properties of the shrink loop\<close>

lemma probe_capped: "probe capped_server n c high = Inr (Some 1000)"
  by (simp add: probe_def capped_server_def reply_def search_body_def)

lemma search_query_not_quota: "search_query low high \<noteq> rate_limit_url"
  by (simp add: search_query_def rate_limit_url_def)

lemma probe_exhausted: "probe exhausted_server n c high = Inr None"
  by (simp add: probe_def exhausted_server_def search_query_not_quota reply_def error_body_def)

lemma probe_hiccup:
  "probe hiccup_server n c high = (if n = 0 then Inr None else Inr (Some 800))"
  by (simp add: probe_def hiccup_server_def reply_def error_body_def search_body_def)

lemma probe_throttled:
  "probe throttled_server n c high = (if n < 10 then Inr None else Inr (Some 0))"
  by (simp add: probe_def throttled_server_def reply_def error_body_def search_body_def)

text \<open>
  With the clamp, every candidate range of \<^verbatim>\<open>part_000\<close> and \<^verbatim>\<open>part_001\<close> has its low bound
  at most its high bound, and its high bound at most the ceiling when the cursor is.
\<close>

lemma clamped_high_bounds:
  "c \<le> clamped_high cfg c r" "c \<le> STAR_MAX cfg \<Longrightarrow> clamped_high cfg c r \<le> STAR_MAX cfg"
  by (simp_all add: clamped_high_def)

lemma clamped_high_collapsed:
  "(c = clamped_high cfg c r) = (STAR_MAX cfg \<le> c \<or> r \<le> 1)"
  by (auto simp: clamped_high_def)

lemma p1_shrink_range:
  assumes "p1_shrink cfg srv c r high n = Some y"
  shows "\<forall>r' high' t n'. y = Inr (r', high', t, n') \<longrightarrow> high = clamped_high cfg c r \<longrightarrow>
           high' = clamped_high cfg c r'"
  by (rule p1_shrink.raw_induct [where P = "\<lambda>cfg srv c r high n y.
        \<forall>r' high' t n'. y = Inr (r', high', t, n') \<longrightarrow> high = clamped_high cfg c r \<longrightarrow>
           high' = clamped_high cfg c r'", OF _ assms])
     (auto split: sum.splits if_splits)

lemma p1_candidate_range:
  assumes "p1_shrink cfg srv c r (clamped_high cfg c r) n = Some (Inr (r', high', t, n'))"
    and "c \<le> STAR_MAX cfg"
  shows "c \<le> high' \<and> high' \<le> STAR_MAX cfg"
  using p1_shrink_range [OF assms(1)] clamped_high_bounds [of c cfg r'] assms(2) by simp

text \<open>
  The \<open>do ... while\<close> loop of \<^verbatim>\<open>part_001\<close> returns for every server, after at most
  \<open>1 + (r - 2) div d\<close> probes for a step \<open>r\<close> and a positive decrement \<open>d\<close>: ten with the
  constants of the script.
\<close>

lemma div_step:
  fixes r d :: int
  assumes "0 < d"
  shows "(r - d - 2) div d = (r - 2) div d - 1"
proof -
  have "(r - d - 2 + d) div d = (r - d - 2) div d + 1"
    using assms div_add_self2 [of d "r - d - 2"] by simp
  then show ?thesis by simp
qed

lemma p1_shrink_terminates:
  assumes "0 < STAR_RANGE_DECREMENT cfg"
  shows "\<exists>y. p1_shrink cfg srv c r high n = Some y \<and>
           (\<forall>r' high' t n'. y = Inr (r', high', t, n') \<longrightarrow>
              n < n' \<and> int n' \<le> int n + 1 + max 0 ((r - 2) div STAR_RANGE_DECREMENT cfg))"
proof (induction "nat r" arbitrary: r high n rule: less_induct)
  case less
  let ?d = "STAR_RANGE_DECREMENT cfg"
  show ?case
  proof (cases "probe srv n c high")
    case (Inl e)
    then show ?thesis by (subst p1_shrink.simps) simp
  next
    case (Inr t)
    show ?thesis
    proof (cases "(t = Some 0 \<or> js_le t (MAX_RESULTS_PER_SEARCH cfg))
                  \<or> c = clamped_high cfg c (r - ?d) \<or> \<not> js_gt t (MAX_RESULTS_PER_SEARCH cfg)")
      case True
      then show ?thesis using Inr by (subst p1_shrink.simps) auto
    next
      case False
      then have big: "2 \<le> r - ?d" by (auto simp: clamped_high_collapsed)
      then have "nat (r - ?d) < nat r" using assms by auto
      from less [OF this, of "clamped_high cfg c (r - ?d)" "Suc n"]
      obtain y where y: "p1_shrink cfg srv c (r - ?d) (clamped_high cfg c (r - ?d)) (Suc n) = Some y"
        and b: "\<forall>r' high' t n'. y = Inr (r', high', t, n') \<longrightarrow>
              Suc n < n' \<and> int n' \<le> int (Suc n) + 1 + max 0 ((r - ?d - 2) div ?d)"
        by blast
      have unfold: "p1_shrink cfg srv c r high n = Some y"
        using False Inr y by (subst p1_shrink.simps) auto
      have "0 \<le> (r - ?d - 2) div ?d" using big assms by (simp add: pos_imp_zdiv_nonneg_iff)
      then have "1 + max 0 ((r - ?d - 2) div ?d) = max 0 ((r - 2) div ?d)"
        using div_step [OF assms, of r] by simp
      with b unfold show ?thesis by fastforce
    qed
  qed
qed

lemma p1_shrink_default_bound:
  "\<exists>y. p1_shrink p1_config srv c 3000 high n = Some y \<and>
     (\<forall>r' high' t n'. y = Inr (r', high', t, n') \<longrightarrow> n < n' \<and> n' \<le> n + 10)"
proof -
  have "0 < STAR_RANGE_DECREMENT p1_config" by (simp add: p1_config_def)
  from p1_shrink_terminates [OF this, of srv c 3000 high n]
  show ?thesis by (auto simp: p1_config_def)
qed

text \<open>The \<open>while\<close> loop of \<^verbatim>\<open>part_000\<close> has the same guard and the same bound.\<close>

lemma p0_shrink_terminates:
  assumes "0 < STAR_RANGE_DECREMENT cfg"
  shows "\<exists>y. p0_shrink cfg srv c r high data n = Some y \<and>
           (\<forall>r' high' t n'. y = Inr (r', high', t, n') \<longrightarrow>
              n \<le> n' \<and> int n' \<le> int n + 1 + max 0 ((r - 2) div STAR_RANGE_DECREMENT cfg))"
proof (induction "nat r" arbitrary: r high data n rule: less_induct)
  case less
  let ?d = "STAR_RANGE_DECREMENT cfg"
  show ?case
  proof (cases "js_gt data (MAX_RESULTS_PER_SEARCH cfg) \<or> data = None")
    case False
    then show ?thesis by (subst p0_shrink.simps) auto
  next
    case enter: True
    show ?thesis
    proof (cases "probe srv n c high")
      case (Inl e)
      then show ?thesis using enter by (subst p0_shrink.simps) auto
    next
      case (Inr t)
      show ?thesis
      proof (cases "(t = Some 0 \<or> js_le t (MAX_RESULTS_PER_SEARCH cfg))
                    \<or> c = clamped_high cfg c (r - ?d)")
        case True
        then show ?thesis using Inr enter by (subst p0_shrink.simps) auto
      next
        case False
        then have big: "2 \<le> r - ?d" by (auto simp: clamped_high_collapsed)
        then have "nat (r - ?d) < nat r" using assms by auto
        from less [OF this, of "clamped_high cfg c (r - ?d)" t "Suc n"]
        obtain y where y: "p0_shrink cfg srv c (r - ?d) (clamped_high cfg c (r - ?d)) t (Suc n) = Some y"
          and b: "\<forall>r' high' t n'. y = Inr (r', high', t, n') \<longrightarrow>
                Suc n \<le> n' \<and> int n' \<le> int (Suc n) + 1 + max 0 ((r - ?d - 2) div ?d)"
          by blast
        have unfold: "p0_shrink cfg srv c r high data n = Some y"
          using False Inr y enter by (subst p0_shrink.simps) auto
        have "0 \<le> (r - ?d - 2) div ?d" using big assms by (simp add: pos_imp_zdiv_nonneg_iff)
        then have "1 + max 0 ((r - ?d - 2) div ?d) = max 0 ((r - 2) div ?d)"
          using div_step [OF assms, of r] by simp
        with b unfold show ?thesis by fastforce
      qed
    qed
  qed
qed

text \<open>
  Claim C4. In each of the three variants, a probe that reports a total at most the cap
  (the cap itself included) ends the shrink loop at once: the step and the candidate
  range of that probe are returned unchanged.
\<close>

theorem cap_comparison_inclusive:
  assumes "probe srv n c high = Inr (Some t)"
    and "t \<le> MAX_RESULTS_PER_SEARCH cfg"
    and "js_gt data (MAX_RESULTS_PER_SEARCH cfg) \<or> data = None"
  shows "frs_shrink cfg srv c r high data n = Some (Inr (r, high, Some t, Suc n))
       \<and> p0_shrink cfg srv c r high data n = Some (Inr (r, high, Some t, Suc n))
       \<and> p1_shrink cfg srv c r high n = Some (Inr (r, high, Some t, Suc n))"
  using assms
  by (subst frs_shrink.simps, subst p0_shrink.simps, subst p1_shrink.simps)
     (auto simp: js_le_def)

theorem cap_comparison_inclusive_witness:
  "frs_shrink frs_config capped_server 5000 1000 5999 None 0 = Some (Inr (1000, 5999, Some 1000, Suc 0))
   \<and> p0_shrink p0_config capped_server 3500 3000 6499 None 0 = Some (Inr (3000, 6499, Some 1000, Suc 0))
   \<and> p1_shrink p1_config capped_server 3499 3000 6498 0 = Some (Inr (3000, 6498, Some 1000, Suc 0))"
  using cap_comparison_inclusive [of capped_server 0 5000 5999 1000 frs_config None 1000]
    cap_comparison_inclusive [of capped_server 0 3500 6499 1000 p0_config None 3000]
    cap_comparison_inclusive [of capped_server 0 3499 6498 1000 p1_config None 3000]
  by (simp add: probe_capped frs_config_def p0_config_def p1_config_def)

lemma frs_shrink_exhausted_returns:
  assumes "frs_shrink cfg srv c r high data n = Some y"
  shows "srv = exhausted_server \<longrightarrow> data \<noteq> None \<and> \<not> js_gt data (MAX_RESULTS_PER_SEARCH cfg)"
  by (rule frs_shrink.raw_induct [where P = "\<lambda>cfg srv c r high data n y.
        srv = exhausted_server \<longrightarrow> data \<noteq> None \<and> \<not> js_gt data (MAX_RESULTS_PER_SEARCH cfg)", OF _ assms])
     (fastforce simp: probe_exhausted js_le_def split: if_splits)

lemma frs_shrink_exhausted: "frs_shrink cfg exhausted_server c r high None n = None"
proof (cases "frs_shrink cfg exhausted_server c r high None n")
  case None
  then show ?thesis .
next
  case (Some y)
  from frs_shrink_exhausted_returns [OF this] show ?thesis by simp
qed

text \<open>
  Claim C2. The claim fails for \<^verbatim>\<open>fetch-repos-stars.js\<close>, whose loop has neither the clamp
  nor the guard: when every search is answered with an error message, so that
  \<open>total_count\<close> is \<open>undefined\<close> each time, the shrink loop of the first pass never returns, and
  neither does \<open>fetchAllRepos\<close>.
\<close>

theorem frs_shrink_never_returns:
  "frs_shrink frs_config exhausted_server 5000 1000 5999 None 1 = None
   \<and> frs_fetchAllRepos frs_config Some exhausted_server 5000 = None"
proof -
  have "fetchRateLimit exhausted_server 0 = Inr \<lparr>limit = 30, remaining = 0, reset = 1700000060\<rparr>"
    by (simp add: fetchRateLimit_def exhausted_server_def reply_def quota_body_def)
  moreover have "frs_loop frs_config Some exhausted_server
      \<lparr>starCutoff = 5000, repoData = [], requests = 1, walked = []\<rparr> = None"
    by (subst frs_loop.simps) (simp add: frs_iteration_def frs_shrink_exhausted)
  ultimately show ?thesis
    by (simp add: frs_fetchAllRepos_def frs_shrink_exhausted)
qed

text \<open>
  Claim C3. The claim fails for \<^verbatim>\<open>part_001\<close>: after one probe with an \<open>undefined\<close> total the
  \<open>do ... while\<close> loop ends, and the range 3499..6198, which was never probed, is what the
  collector is given. The two \<open>while\<close> variants probe again.
\<close>

theorem p1_undefined_total_ends_loop:
  "p1_shrink p1_config hiccup_server 3499 3000 6498 0 = Some (Inr (2700, 6198, None, 1))
   \<and> p0_shrink p0_config hiccup_server 3500 3000 6499 None 0 = Some (Inr (2700, 6199, Some 800, 2))
   \<and> frs_shrink frs_config hiccup_server 5000 1000 5999 None 0 = Some (Inr (900, 5899, Some 800, 2))"
  by (simp add: p1_shrink.simps p0_shrink.simps frs_shrink.simps probe_hiccup js_le_def js_gt_def
        p1_config_def p0_config_def frs_config_def clamped_high_def frs_high_def)

text \<open>
  Claim C9. The claim fails for \<^verbatim>\<open>fetch-repos-stars.js\<close>, which has no clamp: after ten
  probes without a fit the step is 0 and the candidate range is 5000..4999.
\<close>

theorem frs_candidate_low_above_high:
  "frs_shrink frs_config throttled_server 5000 1000 5999 None 0 = Some (Inr (0, 4999, Some 0, 11))"
  by (simp add: frs_shrink.simps probe_throttled js_le_def js_gt_def frs_config_def frs_high_def)


section \<open>Properties of the filter and projection\<close>

lemma filter_is_normalize_items:
  "map (\<lambda>i. \<lparr>github_id = item_id i, full_name = full_name_raw i,
                html_url = html_url_raw i, description = description_raw i,
                language = language_raw i, forks = forks_count i,
                stars = stargazers_count i, watchers = watchers_count i,
                open_issues = open_issues_count i, topics = topics_raw i,
                contributors_url = contributors_url_raw i\<rparr>)
       (filter (\<lambda>i. \<not> archived i \<and> \<not> disabled i \<and> visibility i = ''public'') its)
   = normalize_items its"
  by (induction its) (simp_all add: publicly_listed_def normalized_record_def)

lemma filterResponseData_items:
  "items b = Some its \<Longrightarrow> filterResponseData b = Inr (normalize_items its)"
  by (simp add: filterResponseData_def filter_is_normalize_items)

lemma normalize_items_map_filter:
  "normalize_items its = map normalized_record (filter publicly_listed its)"
  by (induction its) simp_all

text \<open>
  Claim C6. For a body that has items, \<open>filterResponseData\<close> returns, in the order of the
  input, the normalised record of each item that is non-archived, non-disabled and of
  visibility \<open>public\<close>, and nothing else; the record has exactly the eleven fields of the
  data model, each copied from the field of the item it is named after.
\<close>

theorem filter_emits_public_projection:
  "filterResponseData (b\<lparr>items := Some its\<rparr>) = Inr (normalize_items its)
   \<and> normalize_items its = map normalized_record (filter publicly_listed its)
   \<and> normalized_record i =
       \<lparr>github_id = item_id i, full_name = full_name_raw i, html_url = html_url_raw i,
        description = description_raw i, language = language_raw i, forks = forks_count i,
        stars = stargazers_count i, watchers = watchers_count i,
        open_issues = open_issues_count i, topics = topics_raw i,
        contributors_url = contributors_url_raw i\<rparr>
   \<and> publicly_listed i = (\<not> archived i \<and> \<not> disabled i \<and> visibility i = ''public'')"
  by (simp add: filterResponseData_items normalize_items_map_filter normalized_record_def
        publicly_listed_def)

section \<open>Properties of the rate-limit governor\<close>

text \<open>
  Rounding to double precision moves a value by at most one part in \<open>2 ^ 53\<close>; the
  subtraction, the division by 1000 and the multiplication by 1000 together move the
  difference of the two times by less than one part in \<open>2 ^ 51\<close>.
\<close>

lemma ties_even_error: "\<bar>of_int (ties_even q) - q\<bar> \<le> 1 / 2"
proof -
  have "of_int \<lfloor>q\<rfloor> \<le> q" "q < of_int \<lfloor>q\<rfloor> + 1" by linarith+
  then show ?thesis by (auto simp: ties_even_def)
qed

lemma expo_bounds:
  assumes "0 < y"
  shows "2 powi expo y \<le> y" and "y < 2 powi (expo y + 1)"
proof -
  have "2 powi expo y \<le> y \<and> y < 2 powi (expo y + 1)"
  proof (cases "1 \<le> y")
    case True
    then have f: "0 < \<lfloor>y\<rfloor>" by linarith
    let ?k = "bitlen \<lfloor>y\<rfloor>"
    from bitlen_bounds [OF f] have b: "2 ^ nat (?k - 1) \<le> \<lfloor>y\<rfloor>" "\<lfloor>y\<rfloor> < 2 ^ nat ?k" by auto
    have k: "1 \<le> ?k" using f bitlen_eq_zero_iff [of "\<lfloor>y\<rfloor>"] bitlen_nonneg [of "\<lfloor>y\<rfloor>"] by linarith
    have c1: "(of_int (2 ^ nat (?k - 1)) :: rat) = 2 ^ nat (?k - 1)"
      and c2: "(of_int (2 ^ nat ?k) :: rat) = 2 ^ nat ?k" by simp_all
    have "(of_int (2 ^ nat (?k - 1)) :: rat) \<le> of_int \<lfloor>y\<rfloor>"
      using b(1) by (rule of_int_le_iff [THEN iffD2])
    moreover have "of_int \<lfloor>y\<rfloor> \<le> y" by linarith
    ultimately have lo: "(2::rat) ^ nat (?k - 1) \<le> y" using c1 by linarith
    have "\<lfloor>y\<rfloor> + 1 \<le> 2 ^ nat ?k" using b(2) by simp
    then have "of_int (\<lfloor>y\<rfloor> + 1) \<le> (of_int (2 ^ nat ?k) :: rat)"
      by (rule of_int_le_iff [THEN iffD2])
    moreover have "y < of_int (\<lfloor>y\<rfloor> + 1)" by linarith
    ultimately have hi: "y < (2::rat) ^ nat ?k" using c2 by linarith
    have "(2::rat) powi (?k - 1) = 2 ^ nat (?k - 1)" "(2::rat) powi ?k = 2 ^ nat ?k"
      using k by (simp_all add: power_int_def)
    with lo hi True show ?thesis by (simp add: expo_def)
  next
    case False
    with assms have y: "0 < y" "y < 1" by auto
    let ?z = "1 / y"
    let ?c = "\<lceil>?z\<rceil>"
    have z: "1 < ?z" using y by simp
    then have c: "0 < ?c - 1" by linarith
    let ?k = "bitlen (?c - 1)"
    from bitlen_bounds [OF c] have b: "2 ^ nat (?k - 1) \<le> ?c - 1" "?c - 1 < 2 ^ nat ?k" by auto
    have k: "1 \<le> ?k" using c bitlen_eq_zero_iff [of "?c - 1"] bitlen_nonneg [of "?c - 1"] by linarith
    have c1: "(of_int (2 ^ nat (?k - 1)) :: rat) = 2 ^ nat (?k - 1)"
      and c2: "(of_int (2 ^ nat ?k) :: rat) = 2 ^ nat ?k" by simp_all
    have "?c \<le> 2 ^ nat ?k" using b(2) by simp
    then have "of_int ?c \<le> (of_int (2 ^ nat ?k) :: rat)" by (rule of_int_le_iff [THEN iffD2])
    moreover have "?z \<le> of_int ?c" by linarith
    ultimately have zhi: "?z \<le> 2 ^ nat ?k" using c2 by linarith
    have "(of_int (2 ^ nat (?k - 1)) :: rat) \<le> of_int (?c - 1)"
      using b(1) by (rule of_int_le_iff [THEN iffD2])
    moreover have "(of_int (?c - 1) :: rat) < ?z" by linarith
    ultimately have zlo: "2 ^ nat (?k - 1) < ?z" using c1 by linarith
    have lo: "1 / 2 ^ nat ?k \<le> y"
      using zhi y by (simp add: field_simps)
    have hi: "y < 1 / 2 ^ nat (?k - 1)"
      using zlo y by (simp add: field_simps)
    have p1: "(2::rat) powi (- ?k) = 1 / 2 ^ nat ?k"
      using k by (simp add: power_int_def field_simps)
    have p2: "(2::rat) powi (- ?k + 1) = 1 / 2 ^ nat (?k - 1)"
    proof (cases "?k = 1")
      case True
      then show ?thesis by simp
    next
      case False
      with k have "- ?k + 1 < 0" "nat (- (- ?k + 1)) = nat (?k - 1)" by auto
      then show ?thesis by (simp add: power_int_def field_simps)
    qed
    from lo hi p1 p2 False show ?thesis by (simp add: expo_def)
  qed
  then show "2 powi expo y \<le> y" and "y < 2 powi (expo y + 1)" by auto
qed

lemma round_double_error: "\<bar>round_double y - y\<bar> \<le> \<bar>y\<bar> / 2 ^ 53"
proof (cases "y = 0")
  case True
  then show ?thesis by (simp add: round_double_def)
next
  case False
  let ?a = "\<bar>y\<bar>"
  let ?e = "expo ?a"
  let ?t = "?a * 2 powi (52 - ?e)"
  let ?m = "of_int (ties_even ?t) :: rat"
  have a: "0 < ?a" using False by simp
  have pos: "(0::rat) < 2 powi (?e - 52)" by simp
  have inv: "(2::rat) powi (52 - ?e) * 2 powi (?e - 52) = 1"
    by (simp add: power_int_add [symmetric])
  have "round_double y - y = sgn y * (?m * 2 powi (?e - 52) - ?a)"
    using False by (simp add: round_double_def algebra_simps abs_mult_sgn mult_sgn_abs)
  then have "\<bar>round_double y - y\<bar> = \<bar>?m * 2 powi (?e - 52) - ?a\<bar>"
    using False by (simp add: abs_mult abs_sgn_eq)
  also have "?m * 2 powi (?e - 52) - ?a = (?m - ?t) * 2 powi (?e - 52)"
    using inv by (simp add: algebra_simps)
  also have "\<bar>(?m - ?t) * 2 powi (?e - 52)\<bar> = \<bar>?m - ?t\<bar> * 2 powi (?e - 52)"
    using pos by (simp add: abs_mult)
  also have "\<dots> \<le> 1 / 2 * 2 powi (?e - 52)"
    using ties_even_error [of ?t] pos by (intro mult_right_mono) simp_all
  also have "1 / 2 * (2::rat) powi (?e - 52) = 2 powi ?e / 2 ^ 53"
  proof -
    have "(2::rat) powi ?e = 2 powi (?e - 52) * 2 ^ 52"
      using power_int_add [of "2::rat" "?e - 52" 52] by simp
    then show ?thesis by simp
  qed
  also have "\<dots> \<le> ?a / 2 ^ 53"
    using expo_bounds(1) [OF a] by (simp add: divide_right_mono)
  finally show ?thesis .
qed


lemma round_trip_error:
  fixes x :: rat
  defines "d \<equiv> round_double x"
  defines "w \<equiv> round_double (d / 1000)"
  defines "s \<equiv> round_double (w * 1000)"
  shows "\<bar>s - x\<bar> \<le> \<bar>x\<bar> / 2 ^ 51"
proof -
  define u :: rat where "u = 1 / 2 ^ 53"
  have u: "0 \<le> u" "u \<le> 1 / 4" by (simp_all add: u_def)
  have e1: "\<bar>d - x\<bar> \<le> \<bar>x\<bar> * u"
    using round_double_error [of x] by (simp add: d_def u_def)
  have e2: "\<bar>w * 1000 - d\<bar> \<le> \<bar>d\<bar> * u"
    using round_double_error [of "d / 1000"] by (simp add: w_def u_def field_simps)
  have e3: "\<bar>s - w * 1000\<bar> \<le> \<bar>w * 1000\<bar> * u"
    using round_double_error [of "w * 1000"] by (simp add: s_def u_def)
  have "\<bar>x\<bar> * (1 + u) = \<bar>x\<bar> + \<bar>x\<bar> * u" by (simp add: algebra_simps)
  with e1 have d: "\<bar>d\<bar> \<le> \<bar>x\<bar> * (1 + u)" by linarith
  have "\<bar>d\<bar> * (1 + u) = \<bar>d\<bar> + \<bar>d\<bar> * u" by (simp add: algebra_simps)
  with e2 have w: "\<bar>w * 1000\<bar> \<le> \<bar>d\<bar> * (1 + u)" by linarith
  have du: "\<bar>d\<bar> * u \<le> \<bar>x\<bar> * (1 + u) * u"
    using d u(1) by (rule mult_right_mono)
  have "\<bar>d\<bar> * (1 + u) \<le> \<bar>x\<bar> * (1 + u) * (1 + u)"
    using d u(1) by (intro mult_right_mono) simp_all
  with w have "\<bar>w * 1000\<bar> \<le> \<bar>x\<bar> * (1 + u) * (1 + u)" by linarith
  then have wu: "\<bar>w * 1000\<bar> * u \<le> \<bar>x\<bar> * (1 + u) * (1 + u) * u"
    using u(1) by (rule mult_right_mono)
  have "\<bar>s - x\<bar> \<le> \<bar>s - w * 1000\<bar> + \<bar>w * 1000 - d\<bar> + \<bar>d - x\<bar>" by linarith
  also have "\<dots> \<le> \<bar>x\<bar> * (1 + u) * (1 + u) * u + \<bar>x\<bar> * (1 + u) * u + \<bar>x\<bar> * u"
    using e1 e2 e3 du wu by linarith
  also have "\<dots> = \<bar>x\<bar> * (u * (3 + 3 * u + u * u))" by (simp add: algebra_simps)
  also have "\<dots> \<le> \<bar>x\<bar> * (4 * u)"
  proof (intro mult_left_mono)
    have "u * u \<le> 1 / 4 * (1 / 4)" using u by (intro mult_mono) simp_all
    with u have "3 + 3 * u + u * u \<le> 4" by linarith
    with u(1) show "u * (3 + 3 * u + u * u) \<le> 4 * u"
      using mult_left_mono [of "3 + 3 * u + u * u" 4 u] by (simp add: algebra_simps)
  qed simp
  also have "\<dots> = \<bar>x\<bar> / 2 ^ 51" by (simp add: u_def)
  finally show ?thesis .
qed

text \<open>
  Claim C8, as amended. Once the quota has been read and the reset time is a valid date,
  \<open>waitForRateLimitReset\<close> calls \<open>sleep\<close> exactly when the remaining quota is below 12
  under option 1 or is 0 under option 2. The duration it asks for, in milliseconds, is the
  reset time minus the current time up to the rounding of double-precision arithmetic: it
  differs from it by at most one part in \<open>2 ^ 51\<close>, to either side. Otherwise \<open>sleep\<close> is
  not called. The real time that \<open>setTimeout\<close> then takes lies outside the model.
\<close>

theorem wait_until_reset_up_to_rounding:
  assumes "fetchRateLimit srv n = Inr q"
    and "\<bar>reset q * 1000\<bar> \<le> 8640000000000000"
  shows "\<exists>nap. waitForRateLimitReset srv now option n = Inr (nap, Suc n) \<and>
           (if (option = 1 \<and> remaining q < 12) \<or> (option = 2 \<and> remaining q = 0)
            then \<exists>s. nap = Some (Finite s) \<and>
                   \<bar>s - of_int (reset q * 1000 - now (Suc n))\<bar>
                     \<le> \<bar>of_int (reset q * 1000 - now (Suc n))\<bar> / 2 ^ 51
            else nap = None)"
proof -
  define x :: rat where "x = of_int (reset q * 1000 - now (Suc n))"
  define s where "s = round_double (round_double (round_double x / 1000) * 1000)"
  have arg: "js_times (js_divide (date_minus_now (reset q) (now (Suc n))) 1000) 1000 = Finite s"
    using assms(2) by (simp add: date_minus_now_def js_divide_def js_times_def s_def x_def)
  have close: "\<bar>s - x\<bar> \<le> \<bar>x\<bar> / 2 ^ 51"
    unfolding s_def by (rule round_trip_error)
  show ?thesis
  proof (cases "(option = 1 \<and> remaining q < 12) \<or> (option = 2 \<and> remaining q = 0)")
    case True
    then have "waitForRateLimitReset srv now option n = Inr (Some (Finite s), Suc n)"
      using True by (auto simp: waitForRateLimitReset_def assms(1) arg)
    with close show ?thesis
      unfolding if_P [OF True] x_def by blast
  next
    case False
    then have "waitForRateLimitReset srv now option n = Inr (None, Suc n)"
      using False by (auto simp: waitForRateLimitReset_def assms(1))
    then show ?thesis
      unfolding if_not_P [OF False] by blast
  qed
qed

lemma sleep_scarce:
  "js_times (js_divide (date_minus_now 1700000005 1700000000000) 1000) 1000 = Finite 5000"
  by code_simp

lemma fetchRateLimit_scarce:
  "fetchRateLimit scarce_server n = Inr \<lparr>limit = 30, remaining = 5, reset = 1700000005\<rparr>"
  by (simp add: fetchRateLimit_def scarce_server_def reply_def quota_body_def)

theorem wait_until_reset_up_to_rounding_witness:
  "waitForRateLimitReset scarce_server still_clock 1 0 = Inr (Some (Finite 5000), Suc 0)
   \<and> waitForRateLimitReset scarce_server still_clock 2 0 = Inr (None, Suc 0)"
  using wait_until_reset_up_to_rounding [OF fetchRateLimit_scarce, where n = 0 and now = still_clock and option = 1]
    wait_until_reset_up_to_rounding [OF fetchRateLimit_scarce, where n = 0 and now = still_clock and option = 2]
  by (simp add: waitForRateLimitReset_def fetchRateLimit_scarce still_clock_def sleep_scarce)

lemma sleep_tight:
  "js_times (js_divide (date_minus_now 1700000001 1699999999999) 1000) 1000
     = Finite (8804889115230207 / 8796093022208)"
  by code_simp

text \<open>
  Claim C8 as stated fails: with the reset 1001 milliseconds ahead, \<open>1001 / 1000\<close> rounds
  down, the product with 1000 rounds down again, and \<open>sleep\<close> is handed
  1000.9999999999999, which is less than the time left until the reset.
\<close>

theorem wait_shorter_than_reset_counterexample:
  "waitForRateLimitReset tight_server early_clock 1 0 =
     Inr (Some (Finite (8804889115230207 / 8796093022208)), Suc 0)
   \<and> 1700000001 * 1000 - early_clock (Suc 0) = 1001
   \<and> (8804889115230207 / 8796093022208 :: rat) < 1001"
  by (simp add: waitForRateLimitReset_def fetchRateLimit_def tight_server_def reply_def
        quota_body_def early_clock_def sleep_tight)

section \<open>The final sort\<close>

lemma sort_by_stars_sorted: "sorted_wrt (\<lambda>a b. stars b \<le> stars a) (sort_by_stars rs)"
proof -
  have "sorted (map (\<lambda>r. - stars r) (sort_key (\<lambda>r. - stars r) rs))"
    by (rule sorted_sort_key)
  then show ?thesis
    by (simp add: sort_by_stars_def sorted_map)
qed

lemma sort_by_stars_mset: "mset (sort_by_stars rs) = mset rs"
  by (simp add: sort_by_stars_def)

text \<open>
  Claim C10. Whenever \<open>fetchAllRepos\<close> of \<^verbatim>\<open>part_001\<close> returns an array, the array is in
  non-increasing order of \<open>stars\<close>, and it holds the records the loop accumulated, each as
  often as the loop had it.
\<close>

theorem p1_result_sorted_by_stars:
  assumes "p1_fetchAllRepos cfg URL srv now start = Some (Inr s)"
  shows "sorted_wrt (\<lambda>a b. stars b \<le> stars a) (repoData s)
       \<and> (\<exists>s'. p1_loop cfg URL srv now
                  \<lparr>starCutoff = start, repoData = [], requests = 0, walked = []\<rparr> = Some (Inr s')
                \<and> mset (repoData s) = mset (repoData s'))"
  using assms
  by (auto simp: p1_fetchAllRepos_def sort_by_stars_sorted sort_by_stars_mset
           split: option.splits sum.splits)

section \<open>Reading a rendered \<open>Link\<close> header\<close>

lemma split_on_notin: "d \<notin> set xs \<Longrightarrow> split_on d xs = [xs]"
  by (induction xs) auto

lemma split_on_append: "d \<notin> set xs \<Longrightarrow> split_on d (xs @ d # ys) = xs # split_on d ys"
  by (induction xs) auto

lemma trim_padded:
  assumes "s \<noteq> []" "\<not> is_space (hd s)" "\<not> is_space (last s)" "list_all is_space ws"
  shows "trim (ws @ s) = s"
proof -
  have a: "dropWhile is_space (ws @ s) = s"
    using assms by (cases s) (auto simp: dropWhile_append list_all_iff)
  have "rev s \<noteq> []" "\<not> is_space (hd (rev s))"
    using assms by (auto simp: hd_rev)
  then have "dropWhile is_space (rev s) = rev s"
    by (cases "rev s") auto
  with a show ?thesis by (simp add: trim_def)
qed

lemma render_entry_ends:
  "render_entry e \<noteq> []" "\<not> is_space (hd (render_entry e))" "\<not> is_space (last (render_entry e))"
  by (simp_all add: render_entry_def is_space_def)

lemma trim_render_entry: "list_all is_space ws \<Longrightarrow> trim (ws @ render_entry e) = render_entry e"
  by (rule trim_padded) (simp_all add: render_entry_ends)

lemma render_entry_no_comma: "plain (fst e) \<Longrightarrow> plain (snd e) \<Longrightarrow> CHR '','' \<notin> set (render_entry e)"
  by (auto simp: render_entry_def plain_def)

lemma split_render_entries:
  "list_all (\<lambda>e. plain (fst e) \<and> plain (snd e)) (e # es) \<Longrightarrow>
     split_on (CHR '','') (render_entries (e # es)) = render_entry e # map (\<lambda>x. '' '' @ render_entry x) es"
proof (induction es arbitrary: e)
  case Nil
  then show ?case by (simp add: split_on_notin render_entry_no_comma)
next
  case (Cons x xs)
  have "split_on (CHR '','') (render_entry e @ CHR '','' # ('' '' @ render_entries (x # xs)))
      = render_entry e # split_on (CHR '','') ('' '' @ render_entries (x # xs))"
    using Cons.prems by (intro split_on_append render_entry_no_comma) auto
  moreover have "split_on (CHR '','') ('' '' @ render_entries (x # xs))
      = ('' '' @ render_entry x) # map (\<lambda>x. '' '' @ render_entry x) xs"
    using Cons.IH[of x] Cons.prems by simp
  ultimately show ?case by simp
qed

lemma split_entry:
  assumes "plain u" "plain r"
  shows \<open>split_on (CHR '';'') (render_entry (u, r)) = [''<'' @ u @ ''>'', '' rel="'' @ r @ ''"'']\<close>
proof -
  have 1: "CHR '';'' \<notin> set (''<'' @ u @ ''>'')" using assms by (auto simp: plain_def)
  have 2: \<open>CHR '';'' \<notin> set ('' rel="'' @ r @ ''"'')\<close> using assms by (auto simp: plain_def)
  have \<open>render_entry (u, r) = (''<'' @ u @ ''>'') @ CHR '';'' # ('' rel="'' @ r @ ''"'')\<close>
    by (simp add: render_entry_def)
  then show ?thesis
    using split_on_append[OF 1] split_on_notin[OF 2] by simp
qed

lemma slice_brackets: "slice_1_m1 (CHR ''<'' # u @ ''>'') = u"
  by (simp add: slice_1_m1_def butlast_append)

lemma trim_rel:
  "trim (CHR '' '' # CHR ''r'' # CHR ''e'' # CHR ''l'' # CHR ''='' # CHR 0x22 # r @ [CHR 0x22])
     = CHR ''r'' # CHR ''e'' # CHR ''l'' # CHR ''='' # CHR 0x22 # r @ [CHR 0x22]"
proof -
  have "trim ('' '' @ (CHR ''r'' # CHR ''e'' # CHR ''l'' # CHR ''='' # CHR 0x22 # r @ [CHR 0x22]))
     = CHR ''r'' # CHR ''e'' # CHR ''l'' # CHR ''='' # CHR 0x22 # r @ [CHR 0x22]"
    by (rule trim_padded) (simp_all add: is_space_def)
  then show ?thesis by simp
qed

lemma rel_is_next:
  "(CHR ''r'' # CHR ''e'' # CHR ''l'' # CHR ''='' # CHR 0x22 # r @ [CHR 0x22] = rel_next)
     = (r = ''next'')"
  using append_same_eq[of r "[CHR 0x22]" "''next''"] by (simp add: rel_next_def)

lemma scan_links_rendered:
  assumes "list_all2 (\<lambda>l e. trim l = render_entry e) ls es"
    and "list_all (\<lambda>e. plain (fst e) \<and> plain (snd e) \<and> URL (fst e) \<noteq> None) es"
  shows "scan_links URL ls =
         Inr (case find (\<lambda>e. snd e = ''next'') es of None \<Rightarrow> None | Some e \<Rightarrow> URL (fst e))"
  using assms
proof (induction ls es rule: list_all2_induct)
  case Nil
  then show ?case by simp
next
  case (Cons l ls e es)
  obtain u r where e: "e = (u, r)" by (cases e)
  from Cons.prems e obtain h where h: "URL u = Some h" and pl: "plain u" "plain r" by auto
  have sp: \<open>split_on (CHR '';'') (trim l) = [''<'' @ u @ ''>'', '' rel="'' @ r @ ''"'']\<close>
    using Cons.hyps(1) e split_entry[OF pl] by simp
  have rest: "scan_links URL ls =
         Inr (case find (\<lambda>e. snd e = ''next'') es of None \<Rightarrow> None | Some e \<Rightarrow> URL (fst e))"
    using Cons.IH Cons.prems by simp
  show ?case
    by (simp add: sp slice_brackets h trim_rel rel_is_next rest e)
qed

lemma next_page_rendered:
  assumes "well_formed URL p"
  shows "next_page URL (header_of p) = Inr (follows URL p)"
proof (cases "entries p")
  case Nil
  then show ?thesis by (simp add: next_page_def header_of_def follows_def)
next
  case (Cons e es)
  have pl: "list_all (\<lambda>e. plain (fst e) \<and> plain (snd e)) (e # es)"
    using assms Cons by (auto simp: well_formed_def list_all_iff)
  have ne: "render_entries (e # es) \<noteq> []"
    by (cases es) (simp_all add: render_entry_ends)
  have "list_all2 (\<lambda>l x. trim l = render_entry x)
          (render_entry e # map (\<lambda>x. '' '' @ render_entry x) es) (e # es)"
    using trim_render_entry[of "[]"] trim_render_entry[of "'' ''"]
    by (simp add: list_all2_map1 list_all2_same is_space_def list.rel_refl)
  then have "scan_links URL (split_on (CHR '','') (render_entries (e # es))) =
      Inr (case find (\<lambda>e. snd e = ''next'') (e # es) of None \<Rightarrow> None | Some e \<Rightarrow> URL (fst e))"
    using assms Cons by (simp only: split_render_entries[OF pl]) (rule scan_links_rendered, simp_all add: well_formed_def)
  then show ?thesis
    using Cons ne by (simp add: next_page_def header_of_def follows_def)
qed


section \<open>Properties of the paginated collector\<close>

lemma paginate_stop: "paginate URL srv None acc asked n = Some (Inr acc, asked, n)"
  by (subst paginate.simps) simp

lemma paginate_page:
  assumes "srv n (addr p) = Some resp" and "answers resp p" and "well_formed URL p"
  shows "paginate URL srv (Some (addr p)) acc asked n =
           paginate URL srv (follows URL p) (acc @ normalize_items (listed p)) (asked @ [addr p]) (Suc n)"
proof -
  from assms(2) obtain b where b: "payload resp = Some b" "items b = Some (listed p)"
    and h: "link_header resp = header_of p"
    by (auto simp: answers_def split: option.splits)
  have ne: "addr p \<noteq> []" using assms(3) by (simp add: well_formed_def)
  show ?thesis
    by (subst paginate.simps)
       (simp add: ne assms(1) b h filterResponseData_items next_page_rendered[OF assms(3)])
qed

lemma paginate_chain:
  assumes "list_all (well_formed URL) (p # ps)" and "chain URL (p # ps)" and "served srv n (p # ps)"
  shows "paginate URL srv (Some (addr p)) acc asked n =
           Some (Inr (acc @ concat (map (\<lambda>q. normalize_items (listed q)) (p # ps))),
                 asked @ map addr (p # ps), n + length (p # ps))"
  using assms
proof (induction ps arbitrary: p acc asked n)
  case Nil
  from Nil.prems obtain resp where r: "srv n (addr p) = Some resp" "answers resp p"
    by (auto split: option.splits)
  have "follows URL p = None" using Nil.prems by (simp add: follows_def)
  moreover have "well_formed URL p" using Nil.prems by simp
  ultimately show ?case
    using paginate_page[where srv=srv and n=n and p=p and URL=URL and acc=acc and asked=asked, OF r] by (simp add: paginate_stop)
next
  case (Cons q qs)
  from Cons.prems obtain resp where r: "srv n (addr p) = Some resp" "answers resp p"
    by (auto split: option.splits)
  have f: "follows URL p = Some (addr q)" using Cons.prems by simp
  have "paginate URL srv (Some (addr p)) acc asked n =
        paginate URL srv (Some (addr q)) (acc @ normalize_items (listed p)) (asked @ [addr p]) (Suc n)"
    using paginate_page[where srv=srv and n=n and p=p and URL=URL and acc=acc and asked=asked, OF r] Cons.prems f by simp
  also have "\<dots> = Some (Inr ((acc @ normalize_items (listed p)) @ concat (map (\<lambda>q. normalize_items (listed q)) (q # qs))),
                 (asked @ [addr p]) @ map addr (q # qs), Suc n + length (q # qs))"
    using Cons.prems by (intro Cons.IH) auto
  finally show ?case by simp
qed


text \<open>
  Claim C5, as amended. For a chain of \<open>N\<close> simulated pages whose link URLs and relation
  names contain neither a comma nor a semicolon and whose link URLs the URL parser
  accepts, where each page but the last leads to its successor by its first \<open>next\<close>
  entry and the last page has no \<open>next\<close> entry, the collector makes exactly \<open>N\<close> requests,
  for the addresses of the pages in order, and returns the normalised items of all pages
  in page order. This holds for the two cited variants alike.
\<close>

theorem collector_walks_plain_chain:
  assumes "list_all (well_formed URL) (p # ps)" and "chain URL (p # ps)"
    and "served srv n (p # ps)"
  shows "p1_fetchRepositoriesWithPagination URL srv (addr p) n =
           Some (Inr (concat (map (\<lambda>q. normalize_items (listed q)) (p # ps))),
                 map addr (p # ps), n + length (p # ps))
       \<and> frs_fetchRepositoriesWithPagination URL srv (addr p) n =
           Some (Inr (concat (map (\<lambda>q. normalize_items (listed q)) (p # ps))),
                 map addr (p # ps), n + length (p # ps))"
  using paginate_chain [OF assms, of "[]" "[]"]
  by (simp add: p1_fetchRepositoriesWithPagination_def frs_fetchRepositoriesWithPagination_def)

lemma tour_well_formed: "list_all (well_formed Some) tour_pages"
  by (simp add: tour_pages_def well_formed_def plain_def tour_start_def tour_second_def)

lemma tour_chain: "chain Some tour_pages"
  by (simp add: tour_pages_def follows_def)

lemma tour_served: "served tour_server n tour_pages"
  by (simp add: tour_pages_def tour_server_def reply_def search_body_def answers_def
        header_of_def render_entry_def tour_start_def tour_second_def rate_limit_url_def)

theorem collector_walks_plain_chain_witness:
  "list_all (well_formed Some) tour_pages \<and> chain Some tour_pages \<and> served tour_server 0 tour_pages
   \<and> p1_fetchRepositoriesWithPagination Some tour_server tour_start 0 =
       Some (Inr (map normalized_record
                    [sample_item 1 363500, sample_item 3 364000, sample_item 4 363900]),
             [tour_start, tour_second], 2)
   \<and> frs_fetchRepositoriesWithPagination Some tour_server tour_start 0 =
       Some (Inr (map normalized_record
                    [sample_item 1 363500, sample_item 3 364000, sample_item 4 363900]),
             [tour_start, tour_second], 2)"
  using collector_walks_plain_chain [of Some "hd tour_pages" "tl tour_pages" tour_server 0]
    tour_well_formed tour_chain tour_served [of 0]
  by (simp add: tour_pages_def publicly_listed_def sample_item_def)

text \<open>
  Claim C5 as stated fails: the link of the first page below has the stated form and is
  the only \<open>next\<close> entry, but its URL contains a comma. The header is split inside the
  URL, reading \<open>split(';')[1]\<close> of the first piece throws, and nothing is collected.
\<close>

theorem comma_link_counterexample:
  "chain Some comma_pages \<and> served comma_server 0 comma_pages
   \<and> p1_fetchRepositoriesWithPagination Some comma_server ''https://example.test/items?fields=id'' 0
       = Some (Inl Logged, [''https://example.test/items?fields=id''], 1)
   \<and> frs_fetchRepositoriesWithPagination Some comma_server ''https://example.test/items?fields=id'' 0
       = Some (Inl Thrown, [''https://example.test/items?fields=id''], 1)"
  by (simp add: comma_pages_def comma_server_def follows_def reply_def search_body_def
        answers_def header_of_def render_entry_def
        p1_fetchRepositoriesWithPagination_def frs_fetchRepositoriesWithPagination_def
        paginate.simps filterResponseData_def next_page_def trim_def is_space_def
        slice_1_m1_def)

section \<open>Failure of a page request\<close>

lemma scan_links_failure: "scan_links URL ls = Inl e \<Longrightarrow> e = Thrown"
  by (induction ls) (auto split: list.splits option.splits if_splits)

lemma next_page_failure: "next_page URL h = Inl e \<Longrightarrow> e = Thrown"
  by (auto simp: next_page_def dest: scan_links_failure split: option.splits if_splits)

lemma paginate_failing_page:
  assumes "w \<noteq> []" and "page_fails URL srv n w"
  shows "paginate URL srv (Some w) acc asked n = Some (Inl Thrown, asked @ [w], Suc n)"
  using assms
  by (subst paginate.simps)
     (auto simp: page_fails_def filterResponseData_def dest: next_page_failure
           split: option.splits sum.splits)

lemma paginate_reaches_failure:
  assumes "reached URL srv n u k = Some w" and "w \<noteq> []" and "page_fails URL srv (n + k) w"
  shows "\<exists>asked'. paginate URL srv (Some u) acc asked n = Some (Inl Thrown, asked', Suc (n + k))"
  using assms
proof (induction k arbitrary: n u acc asked)
  case 0
  then show ?case by (simp add: paginate_failing_page)
next
  case (Suc k)
  from Suc.prems(1) obtain resp b its v where
    u: "u \<noteq> []" and r: "srv n u = Some resp" "payload resp = Some b" "items b = Some its"
      "next_page URL (link_header resp) = Inr (Some v)"
    and rest: "reached URL srv (Suc n) v k = Some w"
    by (auto split: if_splits option.splits sum.splits)
  have "paginate URL srv (Some u) acc asked n =
        paginate URL srv (Some v) (acc @ normalize_items its) (asked @ [u]) (Suc n)"
    by (subst paginate.simps) (simp add: u r filterResponseData_items)
  moreover have "\<exists>asked'. paginate URL srv (Some v) (acc @ normalize_items its) (asked @ [u]) (Suc n) =
        Some (Inl Thrown, asked', Suc (Suc n + k))"
    using Suc.prems by (intro Suc.IH [OF rest]) simp_all
  ultimately show ?case by simp
qed

lemma p1_loop_after:
  "p1_after cfg URL srv now s0 j = Some s \<Longrightarrow> p1_loop cfg URL srv now s0 = p1_loop cfg URL srv now s"
proof (induction j arbitrary: s0)
  case 0
  then show ?case by simp
next
  case (Suc j)
  from Suc.prems obtain s' where it: "p1_iteration cfg URL srv now s0 = Some (Inr s')"
    and go: "\<not> starCutoff s' > STAR_MAX cfg" and rest: "p1_after cfg URL srv now s' j = Some s"
    by (auto split: option.splits sum.splits if_splits)
  have "p1_loop cfg URL srv now s0 = p1_loop cfg URL srv now s'"
    by (subst p1_loop.simps) (simp add: it go)
  with Suc.IH [OF rest] show ?case by simp
qed

text \<open>
  Claim C7. Take any pass of the outer loop of \<^verbatim>\<open>part_001\<close> (the state \<open>s\<close> after \<open>j\<close> passes)
  in which both quota checks pass and the planner returns a range, and let the walk over
  that range meet, after \<open>k\<close> good pages, a request that fails. Then the collector returns
  no records (\<open>undefined\<close>, with the exit code set; in \<^verbatim>\<open>fetch-repos-stars.js\<close> the same walk
  ends in an exception), and the run as a whole ends in failure: no record of that
  sub-range reaches a result.
\<close>

theorem failed_walk_yields_no_records:
  assumes "p1_after cfg URL srv now
             \<lparr>starCutoff = start, repoData = [], requests = 0, walked = []\<rparr> j = Some s"
    and "waitForRateLimitReset srv now 1 (requests s) = Inr (nap_soft, n_soft)"
    and "p1_shrink cfg srv (starCutoff s) (INITIAL_STAR_RANGE cfg)
           (clamped_high cfg (starCutoff s) (INITIAL_STAR_RANGE cfg)) n_soft = Some (Inr (r, high, t, n_plan))"
    and "waitForRateLimitReset srv now 2 n_plan = Inr (nap_hard, n_hard)"
    and "reached URL srv n_hard (search_query (starCutoff s) high) k = Some w"
    and "w \<noteq> []"
    and "page_fails URL srv (n_hard + k) w"
  shows "(\<exists>asked. p1_fetchRepositoriesWithPagination URL srv (search_query (starCutoff s) high) n_hard
            = Some (Inl Logged, asked, Suc (n_hard + k)))
       \<and> (\<exists>asked. frs_fetchRepositoriesWithPagination URL srv (search_query (starCutoff s) high) n_hard
            = Some (Inl Thrown, asked, Suc (n_hard + k)))
       \<and> p1_iteration cfg URL srv now s = Some (Inl Thrown)
       \<and> p1_fetchAllRepos cfg URL srv now start = Some (Inl Logged)"
proof -
  from paginate_reaches_failure [OF assms(5-7), of "[]" "[]"]
  obtain asked where pg: "paginate URL srv (Some (search_query (starCutoff s) high)) [] [] n_hard
      = Some (Inl Thrown, asked, Suc (n_hard + k))" by blast
  then have p1: "p1_fetchRepositoriesWithPagination URL srv (search_query (starCutoff s) high) n_hard
      = Some (Inl Logged, asked, Suc (n_hard + k))"
    and frs: "frs_fetchRepositoriesWithPagination URL srv (search_query (starCutoff s) high) n_hard
      = Some (Inl Thrown, asked, Suc (n_hard + k))"
    by (simp_all add: p1_fetchRepositoriesWithPagination_def frs_fetchRepositoriesWithPagination_def)
  have it: "p1_iteration cfg URL srv now s = Some (Inl Thrown)"
    by (simp add: p1_iteration_def assms(2-4) p1)
  have "p1_loop cfg URL srv now s = Some (Inl Thrown)"
    by (subst p1_loop.simps) (simp add: it)
  with p1_loop_after [OF assms(1)]
  have "p1_fetchAllRepos cfg URL srv now start = Some (Inl Logged)"
    by (simp add: p1_fetchAllRepos_def)
  with p1 frs it show ?thesis by blast
qed

lemma search_query_tour: "search_query 363000 364000 = tour_start"
  by (simp add: search_query_def number_toString_def digits.simps tour_start_def)

lemma tour_addresses:
  "tour_start \<noteq> rate_limit_url" "tour_start \<noteq> tour_second" "tour_second \<noteq> rate_limit_url"
  "rate_limit_url \<noteq> tour_start" "tour_second \<noteq> tour_start" "rate_limit_url \<noteq> tour_second"
  "tour_start \<noteq> []" "tour_second \<noteq> []"
  by (simp_all add: tour_start_def tour_second_def rate_limit_url_def)

lemma broken_quota:
  "waitForRateLimitReset broken_server still_clock option n = Inr (None, Suc n)"
  by (simp add: waitForRateLimitReset_def fetchRateLimit_def broken_server_def tour_server_def
        tour_addresses reply_def quota_body_def)

lemma broken_shrink:
  "p1_shrink p1_config broken_server 363000 3000 364000 n = Some (Inr (3000, 364000, Some 3, Suc n))"
  by (subst p1_shrink.simps)
     (simp add: probe_def search_query_tour broken_server_def tour_server_def tour_addresses
        reply_def search_body_def js_le_def p1_config_def)

lemma broken_reached: "reached Some broken_server n tour_start 1 = Some tour_second"
proof -
  have "next_page Some (header_of (hd tour_pages)) = Inr (follows Some (hd tour_pages))"
    using tour_well_formed by (intro next_page_rendered) (simp add: tour_pages_def)
  then have "next_page Some (Some ''<https://api.github.com/search/repositories?page=2&q=stars%3A363000..364000>; rel=\"next\", <https://api.github.com/search/repositories?page=2&q=stars%3A363000..364000>; rel=\"last\"'')
      = Inr (Some tour_second)"
    by (simp add: tour_pages_def header_of_def follows_def render_entry_def tour_second_def)
  then show ?thesis
    by (simp add: broken_server_def tour_server_def tour_addresses reply_def search_body_def)
qed

lemma broken_fails: "page_fails Some broken_server n tour_second"
  by (simp add: page_fails_def broken_server_def)

theorem failed_walk_yields_no_records_witness:
  "(\<exists>asked. p1_fetchRepositoriesWithPagination Some broken_server tour_start 3
       = Some (Inl Logged, asked, 5))
   \<and> (\<exists>asked. frs_fetchRepositoriesWithPagination Some broken_server tour_start 3
       = Some (Inl Thrown, asked, 5))
   \<and> p1_iteration p1_config Some broken_server still_clock
       \<lparr>starCutoff = 363000, repoData = [], requests = 0, walked = []\<rparr> = Some (Inl Thrown)
   \<and> p1_fetchAllRepos p1_config Some broken_server still_clock 363000 = Some (Inl Logged)"
  using failed_walk_yields_no_records [where cfg = p1_config and URL = Some
      and srv = broken_server and now = still_clock and start = 363000 and j = 0
      and s = "\<lparr>starCutoff = 363000, repoData = [], requests = 0, walked = []\<rparr>"
      and n_soft = 1 and nap_soft = None and r = 3000 and high = 364000 and t = "Some 3"
      and n_plan = 2 and nap_hard = None and n_hard = 3 and k = 1 and w = tour_second]
    broken_quota [of 1 0] broken_quota [of 2 2] broken_shrink [of 1]
    broken_reached [of 3] broken_fails [of 4]
  by (simp add: search_query_tour tour_addresses p1_config_def clamped_high_def)

section \<open>A complete run\<close>

lemma tour_quota:
  "waitForRateLimitReset tour_server still_clock option n = Inr (None, Suc n)"
  by (simp add: waitForRateLimitReset_def fetchRateLimit_def tour_server_def
        tour_addresses reply_def quota_body_def)

lemma tour_shrink:
  "p1_shrink p1_config tour_server 363000 3000 364000 n = Some (Inr (3000, 364000, Some 3, Suc n))"
  by (subst p1_shrink.simps)
     (simp add: probe_def search_query_tour tour_server_def tour_addresses
        reply_def search_body_def js_le_def p1_config_def)

lemma tour_walk:
  "p1_fetchRepositoriesWithPagination Some tour_server tour_start n =
     Some (Inr (map normalized_record
                  [sample_item 1 363500, sample_item 3 364000, sample_item 4 363900]),
           [tour_start, tour_second], n + 2)"
proof -
  have "paginate Some tour_server (Some (addr (hd tour_pages))) [] [] n =
          Some (Inr ([] @ concat (map (\<lambda>q. normalize_items (listed q)) (hd tour_pages # tl tour_pages))),
                [] @ map addr (hd tour_pages # tl tour_pages), n + length (hd tour_pages # tl tour_pages))"
    using tour_well_formed tour_chain tour_served [of n]
    by (intro paginate_chain) (simp_all add: tour_pages_def)
  then show ?thesis
    by (simp add: p1_fetchRepositoriesWithPagination_def tour_pages_def publicly_listed_def
          sample_item_def)
qed

lemma tour_run:
  "p1_fetchAllRepos p1_config Some tour_server still_clock 363000 =
     Some (Inr \<lparr>starCutoff = 366000,
                repoData = map normalized_record
                  [sample_item 3 364000, sample_item 4 363900, sample_item 1 363500],
                requests = 5, walked = [(363000, 364000)]\<rparr>)"
proof -
  have "p1_iteration p1_config Some tour_server still_clock
          \<lparr>starCutoff = 363000, repoData = [], requests = 0, walked = []\<rparr> =
        Some (Inr \<lparr>starCutoff = 366000,
                repoData = map normalized_record
                  [sample_item 1 363500, sample_item 3 364000, sample_item 4 363900],
                requests = 5, walked = [(363000, 364000)]\<rparr>)"
    by (simp add: p1_iteration_def tour_quota clamped_high_def p1_config_def
          tour_shrink [unfolded p1_config_def] search_query_tour tour_walk)
  then have "p1_loop p1_config Some tour_server still_clock
          \<lparr>starCutoff = 363000, repoData = [], requests = 0, walked = []\<rparr> =
        Some (Inr \<lparr>starCutoff = 366000,
                repoData = map normalized_record
                  [sample_item 1 363500, sample_item 3 364000, sample_item 4 363900],
                requests = 5, walked = [(363000, 364000)]\<rparr>)"
    by (subst p1_loop.simps) (simp add: p1_config_def)
  then show ?thesis
    by (simp add: p1_fetchAllRepos_def sort_by_stars_def normalized_record_def sample_item_def)
qed

theorem p1_result_sorted_by_stars_witness:
  "p1_fetchAllRepos p1_config Some tour_server still_clock 363000 =
     Some (Inr \<lparr>starCutoff = 366000,
                repoData = map normalized_record
                  [sample_item 3 364000, sample_item 4 363900, sample_item 1 363500],
                requests = 5, walked = [(363000, 364000)]\<rparr>)
   \<and> sorted_wrt (\<lambda>a b. stars b \<le> stars a)
        (map normalized_record [sample_item 3 364000, sample_item 4 363900, sample_item 1 363500])"
  using p1_result_sorted_by_stars [OF tour_run] tour_run by simp

section \<open>The ranges handed to the collector\<close>

text \<open>
  Ranges that tile an interval cover each of its integers exactly once. Whenever a run of
  \<^verbatim>\<open>part_001\<close> returns and its cursor has moved forward on every pass, the ranges it walked
  tile the interval from the floor to the ceiling.
\<close>

lemma tiles_append:
  "tiles a (xs @ ys) b = (\<exists>m. tiles a xs m \<and> tiles m ys b)"
  by (induction xs arbitrary: a) auto

lemma tiles_cover:
  assumes "tiles a xs b" and "a \<le> k" and "k < b"
  shows "\<exists>!i. i < length xs \<and> fst (xs ! i) \<le> k \<and> k \<le> snd (xs ! i)"
  using assms
proof (induction xs arbitrary: a)
  case Nil
  then show ?case by simp
next
  case (Cons x xs)
  show ?case
  proof (cases "k \<le> snd x")
    case True
    have later: "\<And>i. i < length xs \<Longrightarrow> k < fst (xs ! i)"
    proof -
      fix i assume "i < length xs"
      moreover have "\<And>a. tiles a xs b \<Longrightarrow> i < length xs \<Longrightarrow> a \<le> fst (xs ! i)"
      proof (induction xs arbitrary: i)
        case Nil then show ?case by simp
      next
        case (Cons y ys)
        then show ?case by (cases i) force+
      qed
      ultimately have "snd x + 1 \<le> fst (xs ! i)" using Cons.prems(1) by simp
      with True show "k < fst (xs ! i)" by simp
    qed
    show ?thesis
    proof (rule ex1I [of _ 0])
      show "0 < length (x # xs) \<and> fst ((x # xs) ! 0) \<le> k \<and> k \<le> snd ((x # xs) ! 0)"
        using Cons.prems True by simp
    next
      fix i assume i: "i < length (x # xs) \<and> fst ((x # xs) ! i) \<le> k \<and> k \<le> snd ((x # xs) ! i)"
      show "i = 0"
      proof (cases i)
        case 0 then show ?thesis .
      next
        case (Suc j)
        with i later [of j] show ?thesis by simp
      qed
    qed
  next
    case False
    then have "snd x + 1 \<le> k" by simp
    from Cons.IH [OF _ this Cons.prems(3)] Cons.prems(1)
    obtain j where j: "j < length xs" "fst (xs ! j) \<le> k" "k \<le> snd (xs ! j)"
      and uniq: "\<And>i. i < length xs \<and> fst (xs ! i) \<le> k \<and> k \<le> snd (xs ! i) \<Longrightarrow> i = j"
      by auto
    show ?thesis
    proof (rule ex1I [of _ "Suc j"])
      show "Suc j < length (x # xs) \<and> fst ((x # xs) ! Suc j) \<le> k \<and> k \<le> snd ((x # xs) ! Suc j)"
        using j by simp
    next
      fix i assume i: "i < length (x # xs) \<and> fst ((x # xs) ! i) \<le> k \<and> k \<le> snd ((x # xs) ! i)"
      show "i = Suc j"
      proof (cases i)
        case 0
        with i False show ?thesis by simp
      next
        case (Suc m)
        with i uniq [of m] show ?thesis by simp
      qed
    qed
  qed
qed

lemma p1_iteration_step:
  assumes "p1_iteration cfg URL srv now s = Some (Inr s')"
  shows "\<exists>r. starCutoff s' = starCutoff s + r
           \<and> walked s' = walked s @ [(starCutoff s, clamped_high cfg (starCutoff s) r)]"
proof -
  from assms obtain na r high t nb where
    sh: "p1_shrink cfg srv (starCutoff s) (INITIAL_STAR_RANGE cfg)
           (clamped_high cfg (starCutoff s) (INITIAL_STAR_RANGE cfg)) na = Some (Inr (r, high, t, nb))"
    and s': "starCutoff s' = starCutoff s + r" "walked s' = walked s @ [(starCutoff s, high)]"
    by (auto simp: p1_iteration_def split: sum.splits option.splits prod.splits)
  from p1_shrink_range [OF sh] have "high = clamped_high cfg (starCutoff s) r" by simp
  with s' show ?thesis by auto
qed

lemma p1_loop_tiles:
  assumes "p1_loop cfg URL srv now s = Some y"
  shows "\<forall>s'. y = Inr s' \<longrightarrow>
           (\<exists>ws. walked s' = walked s @ ws \<and> ws \<noteq> [] \<and> fst (hd ws) = starCutoff s \<and>
              (starCutoff s \<le> STAR_MAX cfg \<longrightarrow> sorted_wrt (<) (map fst ws @ [starCutoff s']) \<longrightarrow>
                 tiles (starCutoff s) ws (STAR_MAX cfg + 1)))"
proof (rule p1_loop.raw_induct [where P = "\<lambda>cfg URL srv now s y. \<forall>s'. y = Inr s' \<longrightarrow>
           (\<exists>ws. walked s' = walked s @ ws \<and> ws \<noteq> [] \<and> fst (hd ws) = starCutoff s \<and>
              (starCutoff s \<le> STAR_MAX cfg \<longrightarrow> sorted_wrt (<) (map fst ws @ [starCutoff s']) \<longrightarrow>
                 tiles (starCutoff s) ws (STAR_MAX cfg + 1)))", OF _ assms], intro allI impI)
  fix f cfg URL srv now s y s'
  assume IH: "\<And>cfg URL srv now s y. f cfg URL srv now s = Some y \<Longrightarrow> \<forall>s'. y = Inr s' \<longrightarrow>
           (\<exists>ws. walked s' = walked s @ ws \<and> ws \<noteq> [] \<and> fst (hd ws) = starCutoff s \<and>
              (starCutoff s \<le> STAR_MAX cfg \<longrightarrow> sorted_wrt (<) (map fst ws @ [starCutoff s']) \<longrightarrow>
                 tiles (starCutoff s) ws (STAR_MAX cfg + 1)))"
    and body: "(case p1_iteration cfg URL srv now s of None \<Rightarrow> None
        | Some (Inl e) \<Rightarrow> Some (Inl e)
        | Some (Inr s') \<Rightarrow> if STAR_MAX cfg < starCutoff s' then Some (Inr s') else f cfg URL srv now s') = Some y"
    and y: "y = Inr s'"
  from body obtain sa where it: "p1_iteration cfg URL srv now s = Some (Inr sa)"
    and rest: "(if STAR_MAX cfg < starCutoff sa then Some (Inr sa) else f cfg URL srv now sa) = Some y"
    using y by (auto split: option.splits sum.splits)
  from p1_iteration_step [OF it] obtain r where
    r: "starCutoff sa = starCutoff s + r"
       "walked sa = walked s @ [(starCutoff s, clamped_high cfg (starCutoff s) r)]" by blast
  let ?c = "starCutoff s"
  show "\<exists>ws. walked s' = walked s @ ws \<and> ws \<noteq> [] \<and> fst (hd ws) = ?c \<and>
              (?c \<le> STAR_MAX cfg \<longrightarrow> sorted_wrt (<) (map fst ws @ [starCutoff s']) \<longrightarrow>
                 tiles ?c ws (STAR_MAX cfg + 1))"
  proof (cases "STAR_MAX cfg < starCutoff sa")
    case True
    with rest y have "s' = sa" by simp
    with r True show ?thesis
      by (intro exI [of _ "[(?c, clamped_high cfg ?c r)]"]) (auto simp: clamped_high_def)
  next
    case False
    with rest have "f cfg URL srv now sa = Some y" by simp
    from IH [OF this] y obtain ws where
      ws: "walked s' = walked sa @ ws" "ws \<noteq> []" "fst (hd ws) = starCutoff sa"
        "sorted_wrt (<) (map fst ws @ [starCutoff s']) \<longrightarrow> tiles (starCutoff sa) ws (STAR_MAX cfg + 1)"
      using False by auto
    show ?thesis
    proof (intro exI [of _ "(?c, clamped_high cfg ?c r) # ws"] conjI impI)
      show "walked s' = walked s @ (?c, clamped_high cfg ?c r) # ws" using ws r by simp
      show "(?c, clamped_high cfg ?c r) # ws \<noteq> []" by simp
      show "fst (hd ((?c, clamped_high cfg ?c r) # ws)) = ?c" by simp
    next
      assume le: "?c \<le> STAR_MAX cfg"
        and up: "sorted_wrt (<) (map fst ((?c, clamped_high cfg ?c r) # ws) @ [starCutoff s'])"
      from ws(2,3) up have "?c < starCutoff sa" by (cases ws) auto
      with r False have "clamped_high cfg ?c r = starCutoff sa - 1" "?c \<le> starCutoff sa - 1"
        by (auto simp: clamped_high_def)
      moreover from up ws(4) have "tiles (starCutoff sa) ws (STAR_MAX cfg + 1)" by simp
      ultimately show "tiles ?c ((?c, clamped_high cfg ?c r) # ws) (STAR_MAX cfg + 1)" by simp
    qed
  qed
qed

lemma p1_ranges_tile:
  assumes "p1_fetchAllRepos cfg URL srv now F = Some (Inr s)"
    and "F \<le> STAR_MAX cfg"
    and "sorted_wrt (<) (map fst (walked s) @ [starCutoff s])"
  shows "tiles F (walked s) (STAR_MAX cfg + 1) \<and> STAR_MAX cfg < starCutoff s"
proof -
  from assms(1) obtain s0 where
    lp: "p1_loop cfg URL srv now \<lparr>starCutoff = F, repoData = [], requests = 0, walked = []\<rparr> = Some (Inr s0)"
    and s: "s = s0\<lparr>repoData := sort_by_stars (repoData s0)\<rparr>"
    by (auto simp: p1_fetchAllRepos_def split: option.splits sum.splits)
  from p1_loop_tiles [OF lp] assms(2,3) s
  have "tiles F (walked s) (STAR_MAX cfg + 1)" by auto
  moreover have "STAR_MAX cfg < starCutoff s0"
    by (rule p1_loop.raw_induct [where P = "\<lambda>cfg URL srv now s y. \<forall>s'. y = Inr s' \<longrightarrow> STAR_MAX cfg < starCutoff s'", OF _ lp, rule_format])
       (auto split: option.splits sum.splits if_splits)
  ultimately show ?thesis using s by simp
qed

text \<open>The run over the two-page result near the ceiling is such a run.\<close>

lemma p1_ranges_tile_example:
  "tiles 363000 [(363000, 364000)] 364001"
  using p1_ranges_tile [OF tour_run] by (simp add: p1_config_def)

section \<open>A cursor that does not advance\<close>

lemma crowded_quota:
  "waitForRateLimitReset crowded_server now option n = Inr (None, Suc n)"
  by (simp add: waitForRateLimitReset_def fetchRateLimit_def crowded_server_def
        reply_def quota_body_def)

lemma crowded_probe: "probe crowded_server n c high = Inr (Some 1500)"
  by (simp add: probe_def crowded_server_def search_query_not_quota reply_def search_body_def)

lemma crowded_shrink:
  "p1_shrink p1_config crowded_server 3499 3000 6498 n = Some (Inr (0, 3499, Some 1500, n + 10))"
  by (simp add: p1_shrink.simps crowded_probe js_le_def js_gt_def p1_config_def clamped_high_def)

lemma crowded_walk:
  "p1_fetchRepositoriesWithPagination URL crowded_server (search_query 3499 3499) n =
     Some (Inr [normalized_record (sample_item 1 3499)], [search_query 3499 3499], Suc n)"
proof -
  have ne: "search_query 3499 3499 \<noteq> []" by (simp add: search_query_def)
  show ?thesis
    by (simp add: p1_fetchRepositoriesWithPagination_def paginate.simps ne crowded_server_def
          search_query_not_quota reply_def search_body_def filterResponseData_def next_page_def
          normalized_record_def sample_item_def)
qed

lemma crowded_iteration:
  assumes "starCutoff s = 3499"
  shows "p1_iteration p1_config URL crowded_server now s =
           Some (Inr (s\<lparr>starCutoff := 3499,
                        repoData := repoData s @ [normalized_record (sample_item 1 3499)],
                        requests := requests s + 13,
                        walked := walked s @ [(3499, 3499)]\<rparr>))"
  by (simp add: p1_iteration_def assms crowded_quota clamped_high_def p1_config_def
        crowded_shrink [unfolded p1_config_def] crowded_walk)

lemma p1_config_STAR_MAX: "STAR_MAX p1_config = 364000"
  by (simp add: p1_config_def)

lemma crowded_loop_returns:
  assumes "p1_loop cfg URL srv now s = Some y"
  shows "\<not> (cfg = p1_config \<and> srv = crowded_server \<and> starCutoff s = 3499)"
  by (rule p1_loop.raw_induct [where P = "\<lambda>cfg URL srv now s y.
        \<not> (cfg = p1_config \<and> srv = crowded_server \<and> starCutoff s = 3499)", OF _ assms])
     (fastforce simp: crowded_iteration p1_config_STAR_MAX split: if_splits)

text \<open>
  Claim C1. The claim fails for \<^verbatim>\<open>part_001\<close> when ten probes in a row report more matches
  than the cap: the step reaches 0, the guard ends the shrink loop with the range
  3499..3499, and \<open>starCutoff += starCountRange\<close> leaves the cursor where it was. The next
  pass covers the same range again, and \<open>fetchAllRepos\<close> never returns.
\<close>

theorem p1_cursor_stuck_at_zero_step:
  "p1_iteration p1_config Some crowded_server still_clock
     \<lparr>starCutoff = 3499, repoData = [], requests = 0, walked = []\<rparr> =
     Some (Inr \<lparr>starCutoff = 3499, repoData = [normalized_record (sample_item 1 3499)],
                requests = 13, walked = [(3499, 3499)]\<rparr>)
   \<and> p1_fetchAllRepos p1_config Some crowded_server still_clock 3499 = None"
proof -
  have "p1_loop p1_config Some crowded_server still_clock
          \<lparr>starCutoff = 3499, repoData = [], requests = 0, walked = []\<rparr> = None"
    using crowded_loop_returns [of p1_config Some crowded_server still_clock
        "\<lparr>starCutoff = 3499, repoData = [], requests = 0, walked = []\<rparr>"]
    by (cases "p1_loop p1_config Some crowded_server still_clock
          \<lparr>starCutoff = 3499, repoData = [], requests = 0, walked = []\<rparr>") simp_all
  then show ?thesis
    by (simp add: crowded_iteration p1_fetchAllRepos_def)
qed

end
